theory Spec2Isabelle
  imports Main "HOL-Library.Word"
begin

section \<open>Shared data: bytes, errors, outcomes\<close>

text \<open>
  Go strings are byte sequences, modelled as \<open>string\<close> (a list of 8-bit characters).
  A Go function either returns its results or panics; a returned \<open>(value, error)\<close>
  pair with a nil error is \<open>Inr value\<close>, with a non-nil error \<open>Inl error\<close>.
\<close>

type_synonym byte = "8 word"

datatype hex_error = InvalidByteError char | ErrLength

datatype num_error = ErrSyntax | ErrRange

datatype error =
    EmptyRecord                 \<comment> \<open>ihex: "Empty record detected"\<close>
  | UnableToDecode hex_error    \<comment> \<open>ihex: "Unable to decode hex record: ..."\<close>
  | BadChecksum                 \<comment> \<open>ihex: "Bad checksum detected"\<close>
  | BadField nat                \<comment> \<open>ihex: "Bad field #n in hex record: ..."\<close>
  | BadDataField                \<comment> \<open>ihex: "Bad data field in hex record: ..."\<close>
  | RunTimePanic                \<comment> \<open>srec: "run time panic: ..."\<close>
  | UnknownSrecType             \<comment> \<open>srec: "Unknown SREC type"\<close>
  | ChecksumFieldError num_error \<comment> \<open>srec: the error of ParseUint on the checksum field\<close>
  | ChecksumDataError hex_error \<comment> \<open>srec: the error of calcChecksumHexAscii\<close>
  | ChecksumError               \<comment> \<open>srec: "Checksum error"\<close>
  | DataCharsBad hex_error      \<comment> \<open>srec: "Data chars bad: ..."\<close>
  | AddressFieldError num_error \<comment> \<open>srec: "Address field error: ..."\<close>
  | ByteCountFieldError num_error \<comment> \<open>srec: "Byte-count field error: ..."\<close>
  | ByteCountError              \<comment> \<open>srec: "byte-count error"\<close>
  | FileError                   \<comment> \<open>the error of ioutil.ReadFile\<close>
  | SinkError                   \<comment> \<open>the error of the underlying io.Writer\<close>
  | WriterClosed                \<comment> \<open>srec: "Writer closed"\<close>
  | WriterAlreadyClosed         \<comment> \<open>srec: "Writer already closed"\<close>

datatype 'a outcome = Returns 'a | Panics

section \<open>Library functions used by the codecs\<close>

text \<open>The digit table of encoding/hex and strconv: 0-9, a-f and A-F.\<close>

definition fromHexChar :: "char \<Rightarrow> int option" where
  "fromHexChar c =
     (let n = (of_char c :: int) in
      if 48 \<le> n \<and> n \<le> 57 then Some (n - 48)
      else if 97 \<le> n \<and> n \<le> 102 then Some (n - 87)
      else if 65 \<le> n \<and> n \<le> 70 then Some (n - 55)
      else None)"

text \<open>
  hex.DecodeString: pairs of digits from the left, stopping at the first character that
  is no digit; an odd length is reported last.
\<close>

fun hexDecode :: "string \<Rightarrow> hex_error + byte list" where
  "hexDecode [] = Inr []"
| "hexDecode [p] =
     (case fromHexChar p of None \<Rightarrow> Inl (InvalidByteError p) | Some a \<Rightarrow> Inl ErrLength)"
| "hexDecode (p # q # rest) =
     (case fromHexChar p of
        None \<Rightarrow> Inl (InvalidByteError p)
      | Some a \<Rightarrow>
          (case fromHexChar q of
             None \<Rightarrow> Inl (InvalidByteError q)
           | Some b \<Rightarrow>
               (case hexDecode rest of
                  Inl e \<Rightarrow> Inl e
                | Inr bs \<Rightarrow> Inr (word_of_int (a * 16 + b) # bs))))"

text \<open>hex.EncodeToString writes lower-case digits; strings.ToUpper maps a-z to A-Z.\<close>

definition hexDigit :: "int \<Rightarrow> char" where
  "hexDigit n = ''0123456789abcdef'' ! nat n"

definition hexEncode :: "byte list \<Rightarrow> string" where
  "hexEncode bs = concat (map (\<lambda>b. [hexDigit (uint b div 16), hexDigit (uint b mod 16)]) bs)"

definition toUpperChar :: "char \<Rightarrow> char" where
  "toUpperChar c =
     (let n = (of_char c :: int) in if 97 \<le> n \<and> n \<le> 122 then char_of (n - 32) else c)"

definition ToUpper :: "string \<Rightarrow> string" where
  "ToUpper s = map toUpperChar s"

text \<open>
  strconv.ParseUint(s, 16, bitSize): the empty string and a character that is no hex
  digit are syntax errors, a value above \<open>2 ^ bitSize - 1\<close> is a range error, found
  from the left.
\<close>

fun parseUintLoop :: "int \<Rightarrow> int \<Rightarrow> string \<Rightarrow> num_error + int" where
  "parseUintLoop maxVal n [] = Inr n"
| "parseUintLoop maxVal n (c # cs) =
     (case fromHexChar c of
        None \<Rightarrow> Inl ErrSyntax
      | Some d \<Rightarrow>
          if maxVal < n * 16 + d then Inl ErrRange
          else parseUintLoop maxVal (n * 16 + d) cs)"

definition ParseUint16 :: "string \<Rightarrow> nat \<Rightarrow> num_error + int" where
  "ParseUint16 s bitSize =
     (if s = [] then Inl ErrSyntax else parseUintLoop (2 ^ bitSize - 1) 0 s)"

text \<open>
  A slice expression \<open>r[a:b]\<close> panics unless \<open>0 \<le> a \<le> b \<le> len(r)\<close>; \<open>None\<close>
  is that panic.
\<close>

definition slice :: "'a list \<Rightarrow> int \<Rightarrow> int \<Rightarrow> 'a list option" where
  "slice r a b =
     (if 0 \<le> a \<and> a \<le> b \<and> b \<le> int (length r)
      then Some (take (nat (b - a)) (drop (nat a) r)) else None)"

text \<open>strings.Split(content, "\n").\<close>

definition newline :: char where
  "newline = CHR 0x0A"

fun splitLines :: "string \<Rightarrow> string list" where
  "splitLines [] = [[]]"
| "splitLines (c # cs) =
     (if c = newline then [] # splitLines cs
      else (case splitLines cs of [] \<Rightarrow> [[c]] | l # ls \<Rightarrow> (c # l) # ls))"

section \<open>Package ihex: records and the reader\<close>

type_synonym RecTyp = byte

definition Data :: RecTyp where "Data = 0"
definition EndOfFile :: RecTyp where "EndOfFile = 1"
definition ExtSegAddr :: RecTyp where "ExtSegAddr = 2"
definition StartSegAddr :: RecTyp where "StartSegAddr = 3"
definition ExtLinAddr :: RecTyp where "ExtLinAddr = 4"
definition StartLinAddr :: RecTyp where "StartLinAddr = 5"

record ihex_HexRec =
  ih_Address :: "16 word"
  ih_RecordType :: RecTyp
  ih_Data :: "byte list"

text \<open>calcChecksum of ihex: the bytes are summed in an int, the result is \<open>byte(-cs)\<close>.\<close>

definition ihex_calcChecksum :: "byte list \<Rightarrow> byte" where
  "ihex_calcChecksum buf = word_of_int (- foldl (\<lambda>cs b. cs + uint b) 0 buf)"

definition bigEndian16 :: "byte \<Rightarrow> byte \<Rightarrow> 16 word" where
  "bigEndian16 hi lo = word_of_int (uint hi * 256 + uint lo)"

text \<open>
  decodeRecord of ihex. \<open>b[len(b)-1]\<close> on the empty byte slice is an index out of
  range, a panic that nothing recovers. binary.Read fails when the reader has fewer
  bytes than the field needs; the data field reads exactly \<open>recLen\<close> bytes.
\<close>

definition ihex_decodeRecord :: "string \<Rightarrow> (error + ihex_HexRec) outcome" where
  "ihex_decodeRecord s =
     (if s = [] then Returns (Inl EmptyRecord)
      else
        (case hexDecode (tl s) of
           Inl e \<Rightarrow> Returns (Inl (UnableToDecode e))
         | Inr b \<Rightarrow>
             if b = [] then Panics
             else
               (let checksum = last b; b1 = butlast b in
                if checksum \<noteq> ihex_calcChecksum b1 then Returns (Inl BadChecksum)
                else
                  (case b1 of
                     [] \<Rightarrow> Returns (Inl (BadField 1))
                   | recLen # f2 \<Rightarrow>
                       (case f2 of
                          hi # lo # f3 \<Rightarrow>
                            (case f3 of
                               [] \<Rightarrow> Returns (Inl (BadField 3))
                             | t # rest \<Rightarrow>
                                 if length rest < unat recLen then Returns (Inl BadDataField)
                                 else Returns (Inr \<lparr>ih_Address = bigEndian16 hi lo,
                                                     ih_RecordType = t,
                                                     ih_Data = take (unat recLen) rest\<rparr>))
                        | _ \<Rightarrow> Returns (Inl (BadField 2)))))))"

text \<open>
  ReadFile of ihex, as the file src/intel/read.go has it twice. The file system is the
  parameter \<open>readFile\<close>: the content of the named file, or the error of
  ioutil.ReadFile. The first copy returns from inside the loop at the first non-empty
  line, whatever decodeRecord gave; the second one returns there only on an error.
\<close>

fun ihex_ReadFile_draft_loop ::
  "ihex_HexRec list \<Rightarrow> string list \<Rightarrow> (ihex_HexRec list \<times> error option) outcome" where
  "ihex_ReadFile_draft_loop hrecs [] = Returns (hrecs, None)"
| "ihex_ReadFile_draft_loop hrecs (rec # records) =
     (if 0 < length rec then
        (case ihex_decodeRecord rec of
           Panics \<Rightarrow> Panics
         | Returns (Inl err) \<Rightarrow> Returns (hrecs, Some err)
         | Returns (Inr hr) \<Rightarrow> Returns (hrecs, None))
      else ihex_ReadFile_draft_loop hrecs records)"

definition ihex_ReadFile_draft ::
  "(string \<Rightarrow> error + string) \<Rightarrow> string \<Rightarrow> (ihex_HexRec list \<times> error option) outcome" where
  "ihex_ReadFile_draft readFile fn =
     (case readFile fn of
        Inl err \<Rightarrow> Returns ([], Some err)
      | Inr content \<Rightarrow> ihex_ReadFile_draft_loop [] (splitLines content))"

fun ihex_ReadFile_loop ::
  "ihex_HexRec list \<Rightarrow> string list \<Rightarrow> (ihex_HexRec list \<times> error option) outcome" where
  "ihex_ReadFile_loop hrecs [] = Returns (hrecs, None)"
| "ihex_ReadFile_loop hrecs (rec # records) =
     (if 0 < length rec then
        (case ihex_decodeRecord rec of
           Panics \<Rightarrow> Panics
         | Returns (Inl err) \<Rightarrow> Returns ([], Some err)
         | Returns (Inr hr) \<Rightarrow> ihex_ReadFile_loop (hrecs @ [hr]) records)
      else ihex_ReadFile_loop hrecs records)"

definition ihex_ReadFile ::
  "(string \<Rightarrow> error + string) \<Rightarrow> string \<Rightarrow> (ihex_HexRec list \<times> error option) outcome" where
  "ihex_ReadFile readFile fn =
     (case readFile fn of
        Inl err \<Rightarrow> Returns ([], Some err)
      | Inr content \<Rightarrow> ihex_ReadFile_loop [] (splitLines content))"

section \<open>Package ihex: the coalescer\<close>

text \<open>
  The variables that the closures of CoalesceDataRecs share. The accumulation buffer
  \<open>data\<close> is modelled by its contents, and an emitted record holds the contents the
  buffer had when the record was emitted.

  In the source the Data of an emitted record is the slice \<open>data.Bytes()\<close>, which
  shares the array of the buffer, and the buffer is reset and written again for the next
  run; bytes.Buffer promises the contents of that slice only until the next write. What
  the model says about the bytes of a payload is therefore a statement about the source
  for a run that no later non-empty run follows (a single run, the last run, an empty
  payload); for an earlier run it is one about the number of records, their addresses,
  types and payload lengths. The facts proved below stay inside these limits.
\<close>

record ihex_coalesce_state =
  ic_dataRecGroup :: bool
  ic_addressCounter :: "16 word"
  ic_outList :: "ihex_HexRec list"
  ic_data :: "byte list"
  ic_dataBaseAddr :: "16 word"

definition ihex_emitJumboDataRec :: "ihex_coalesce_state \<Rightarrow> ihex_coalesce_state" where
  "ihex_emitJumboDataRec st =
     st\<lparr>ic_outList := ic_outList st @
            [\<lparr>ih_Address = ic_dataBaseAddr st, ih_RecordType = Data, ih_Data = ic_data st\<rparr>],
        ic_data := []\<rparr>"

function ihex_processDataRec :: "ihex_coalesce_state \<Rightarrow> ihex_HexRec \<Rightarrow> ihex_coalesce_state" where
  "ihex_processDataRec st r =
     (if \<not> ic_dataRecGroup st then
        st\<lparr>ic_dataRecGroup := True,
           ic_dataBaseAddr := ih_Address r,
           ic_addressCounter := ih_Address r + of_nat (length (ih_Data r)),
           ic_data := ih_Data r\<rparr>
      else if ih_Address r = ic_addressCounter st then
        st\<lparr>ic_data := ic_data st @ ih_Data r,
           ic_addressCounter := ic_addressCounter st + of_nat (length (ih_Data r))\<rparr>
      else
        ihex_processDataRec ((ihex_emitJumboDataRec st)\<lparr>ic_dataRecGroup := False\<rparr>) r)"
  by pat_completeness auto
termination
  by (relation "measure (\<lambda>(st, r). if ic_dataRecGroup st then 1 else 0)") auto

definition ihex_coalesce_step :: "ihex_coalesce_state \<Rightarrow> ihex_HexRec \<Rightarrow> ihex_coalesce_state" where
  "ihex_coalesce_step st rec =
     (if ih_RecordType rec = Data then ihex_processDataRec st rec
      else
        (let st1 = (if 0 < length (ic_data st) then ihex_emitJumboDataRec st else st)
         in st1\<lparr>ic_dataRecGroup := False, ic_outList := ic_outList st1 @ [rec]\<rparr>))"

definition ihex_coalesce_init :: ihex_coalesce_state where
  "ihex_coalesce_init =
     \<lparr>ic_dataRecGroup = False, ic_addressCounter = 0, ic_outList = [],
      ic_data = [], ic_dataBaseAddr = 0\<rparr>"

definition ihex_CoalesceDataRecs :: "ihex_HexRec list \<Rightarrow> ihex_HexRec list" where
  "ihex_CoalesceDataRecs list =
     (let st = foldl ihex_coalesce_step ihex_coalesce_init list;
          st1 = (if 0 < length (ic_data st) then ihex_emitJumboDataRec st else st)
      in ic_outList st1)"

section \<open>Package srec: records and the reader\<close>

text \<open>
  \<open>srecType\<close> is an int; the constants are \<open>iota - 1\<close>, with the value 4 skipped.
\<close>

type_synonym srecType = int

definition S_Unknown :: srecType where "S_Unknown = - 1"
definition S0Header :: srecType where "S0Header = 0"
definition S1Data :: srecType where "S1Data = 1"
definition S2Data :: srecType where "S2Data = 2"
definition S3Data :: srecType where "S3Data = 3"
definition S5Count :: srecType where "S5Count = 5"
definition S6Count :: srecType where "S6Count = 6"
definition S7Start :: srecType where "S7Start = 7"
definition S8Start :: srecType where "S8Start = 8"
definition S9Start :: srecType where "S9Start = 9"

record srec_HexRec =
  sr_Address :: "32 word"
  sr_RecordType :: srecType
  sr_Data :: "byte list"

text \<open>
  The table that init() builds: the key of each enumerated type \<open>v\<close> is
  \<open>Sprintf("S%d", v)\<close>. Indexing a Go map with a key it does not hold yields the zero
  value of the value type, the srecType 0.
\<close>

definition srecEnums :: "srecType list" where
  "srecEnums = [S0Header, S1Data, S2Data, S3Data, S5Count, S6Count, S7Start, S8Start, S9Start]"

definition srecKey :: "srecType \<Rightarrow> string" where
  "srecKey v = [CHR ''S'', char_of (48 + v)]"

definition srecTypeMap :: "string \<rightharpoonup> srecType" where
  "srecTypeMap = map_of (map (\<lambda>v. (srecKey v, v)) srecEnums)"

definition srecTypeMap_index :: "string \<Rightarrow> srecType" where
  "srecTypeMap_index header = (case srecTypeMap header of None \<Rightarrow> 0 | Some v \<Rightarrow> v)"

text \<open>calcChecksum of srec: a byte sum that wraps, complemented bitwise.\<close>

definition srec_calcChecksum :: "byte list \<Rightarrow> byte" where
  "srec_calcChecksum b = not (foldl (\<lambda>cs v. cs + v) 0 b)"

definition calcChecksumHexAscii :: "string \<Rightarrow> hex_error + byte" where
  "calcChecksumHexAscii s =
     (case hexDecode s of Inl err \<Rightarrow> Inl err | Inr b \<Rightarrow> Inr (srec_calcChecksum b))"

text \<open>
  The part of decodeRecord after the switch has cut the address and data fields.
  \<open>data[len(data)-2:]\<close> panics when the data field has fewer than two characters.
\<close>

definition srec_decodeFields ::
  "srecType \<Rightarrow> string \<Rightarrow> string \<Rightarrow> string \<Rightarrow> string \<Rightarrow> int \<Rightarrow> (error + srec_HexRec) outcome" where
  "srec_decodeFields recTyp byteCount csData address data0 ovhd =
     (case slice data0 (int (length data0) - 2) (int (length data0)) of
        None \<Rightarrow> Panics
      | Some checksum \<Rightarrow>
     (case slice data0 0 (int (length data0) - 2) of
        None \<Rightarrow> Panics
      | Some data \<Rightarrow>
     (case ParseUint16 checksum 8 of
        Inl err \<Rightarrow> Returns (Inl (ChecksumFieldError err))
      | Inr cs \<Rightarrow>
     (case calcChecksumHexAscii csData of
        Inl err \<Rightarrow> Returns (Inl (ChecksumDataError err))
      | Inr csCalc \<Rightarrow>
          if (word_of_int cs :: byte) \<noteq> csCalc then Returns (Inl ChecksumError)
          else
     (case hexDecode data of
        Inl err \<Rightarrow> Returns (Inl (DataCharsBad err))
      | Inr binData \<Rightarrow>
     (case ParseUint16 address 32 of
        Inl err \<Rightarrow> Returns (Inl (AddressFieldError err))
      | Inr addrBin \<Rightarrow>
     (case ParseUint16 byteCount 8 of
        Inl err \<Rightarrow> Returns (Inl (ByteCountFieldError err))
      | Inr bc \<Rightarrow>
          if bc \<noteq> int (length binData) + ovhd then Returns (Inl ByteCountError)
          else Returns (Inr \<lparr>sr_Address = word_of_int addrBin,
                              sr_RecordType = recTyp,
                              sr_Data = binData\<rparr>))))))))"

text \<open>
  The body of decodeRecord: the slices of the variable block in their order, then the
  switch on the record type.
\<close>

definition srec_decodeRecord_body :: "string \<Rightarrow> (error + srec_HexRec) outcome" where
  "srec_decodeRecord_body r =
     (case slice r 0 2 of
        None \<Rightarrow> Panics
      | Some header \<Rightarrow>
     (case slice r 2 4 of
        None \<Rightarrow> Panics
      | Some byteCount \<Rightarrow>
     (let recTyp = srecTypeMap_index header in
     (case slice r 2 (int (length r) - 2) of
        None \<Rightarrow> Panics
      | Some csData \<Rightarrow>
          if recTyp \<in> {S0Header, S1Data, S5Count, S9Start} then
            (case slice r 4 8 of
               None \<Rightarrow> Panics
             | Some address \<Rightarrow>
            (case slice r 8 (int (length r)) of
               None \<Rightarrow> Panics
             | Some data \<Rightarrow> srec_decodeFields recTyp byteCount csData address data (2 + 1)))
          else if recTyp \<in> {S2Data, S6Count, S8Start} then
            (case slice r 4 10 of
               None \<Rightarrow> Panics
             | Some address \<Rightarrow>
            (case slice r 10 (int (length r)) of
               None \<Rightarrow> Panics
             | Some data \<Rightarrow> srec_decodeFields recTyp byteCount csData address data (3 + 1)))
          else if recTyp \<in> {S3Data, S7Start} then
            (case slice r 4 12 of
               None \<Rightarrow> Panics
             | Some address \<Rightarrow>
            (case slice r 12 (int (length r)) of
               None \<Rightarrow> Panics
             | Some data \<Rightarrow> srec_decodeFields recTyp byteCount csData address data (4 + 1)))
          else Returns (Inl UnknownSrecType)))))"

text \<open>The deferred function recovers every panic of the body into an error.\<close>

definition srec_decodeRecord :: "string \<Rightarrow> error + srec_HexRec" where
  "srec_decodeRecord r =
     (case srec_decodeRecord_body r of Panics \<Rightarrow> Inl RunTimePanic | Returns v \<Rightarrow> v)"

fun srec_processRecords_loop ::
  "srec_HexRec list \<Rightarrow> string list \<Rightarrow> error + srec_HexRec list" where
  "srec_processRecords_loop hrecs [] = Inr hrecs"
| "srec_processRecords_loop hrecs (rec # records) =
     (if 0 < length rec then
        (case srec_decodeRecord rec of
           Inl err \<Rightarrow> Inl err
         | Inr hr \<Rightarrow> srec_processRecords_loop (hrecs @ [hr]) records)
      else srec_processRecords_loop hrecs records)"

definition srec_processRecords :: "string list \<Rightarrow> error + srec_HexRec list" where
  "srec_processRecords records = srec_processRecords_loop [] records"

section \<open>Package srec: the coalescer\<close>

record srec_coalesce_state =
  sc_dataRecGroup :: bool
  sc_addressCounter :: "32 word"
  sc_outList :: "srec_HexRec list"
  sc_data :: "byte list"
  sc_dataBaseAddr :: "32 word"

definition srec_emitJumboDataRec :: "srec_coalesce_state \<Rightarrow> srecType \<Rightarrow> srec_coalesce_state" where
  "srec_emitJumboDataRec st pt =
     st\<lparr>sc_outList := sc_outList st @
            [\<lparr>sr_Address = sc_dataBaseAddr st, sr_RecordType = pt, sr_Data = sc_data st\<rparr>],
        sc_data := []\<rparr>"

function srec_processDataRec ::
  "srec_coalesce_state \<Rightarrow> srec_HexRec \<Rightarrow> srecType \<Rightarrow> srec_coalesce_state" where
  "srec_processDataRec st r pt =
     (if \<not> sc_dataRecGroup st then
        st\<lparr>sc_dataRecGroup := True,
           sc_dataBaseAddr := sr_Address r,
           sc_addressCounter := sr_Address r + of_nat (length (sr_Data r)),
           sc_data := sr_Data r\<rparr>
      else if sr_Address r = sc_addressCounter st then
        st\<lparr>sc_data := sc_data st @ sr_Data r,
           sc_addressCounter := sc_addressCounter st + of_nat (length (sr_Data r))\<rparr>
      else
        srec_processDataRec ((srec_emitJumboDataRec st pt)\<lparr>sc_dataRecGroup := False\<rparr>) r pt)"
  by pat_completeness auto
termination
  by (relation "measure (\<lambda>(st, r, pt). if sc_dataRecGroup st then 1 else 0)") auto

text \<open>The survey of the data record types and the preferred type of the jumbo records.\<close>

definition srec_preferredDataRecType :: "srec_HexRec list \<Rightarrow> srecType" where
  "srec_preferredDataRecType list =
     (let s2Count = length (filter (\<lambda>r. sr_RecordType r = S2Data) list);
          s3Count = length (filter (\<lambda>r. sr_RecordType r = S3Data) list)
      in if 0 < s3Count then S3Data else if 0 < s2Count then S2Data else S1Data)"

definition srec_coalesce_step ::
  "srecType \<Rightarrow> srec_coalesce_state \<Rightarrow> srec_HexRec \<Rightarrow> srec_coalesce_state" where
  "srec_coalesce_step pt st r =
     (if sr_RecordType r \<in> {S1Data, S2Data, S3Data} then srec_processDataRec st r pt
      else
        (let st1 = (if 0 < length (sc_data st) then srec_emitJumboDataRec st pt else st)
         in st1\<lparr>sc_dataRecGroup := False, sc_outList := sc_outList st1 @ [r]\<rparr>))"

definition srec_coalesce_init :: srec_coalesce_state where
  "srec_coalesce_init =
     \<lparr>sc_dataRecGroup = False, sc_addressCounter = 0, sc_outList = [],
      sc_data = [], sc_dataBaseAddr = 0\<rparr>"

definition srec_CoalesceDataRecs :: "srec_HexRec list \<Rightarrow> srec_HexRec list" where
  "srec_CoalesceDataRecs list =
     (let pt = srec_preferredDataRecType list;
          st = foldl (srec_coalesce_step pt) srec_coalesce_init list;
          st1 = (if 0 < length (sc_data st) then srec_emitJumboDataRec st pt else st)
      in sc_outList st1)"

section \<open>Package ihex: the writer\<close>

text \<open>
  The underlying io.Writer is a state \<open>'s\<close> with the parameter \<open>put\<close>: one call
  of its Write method on a text, giving the new state and whether the call failed.
\<close>

type_synonym 's sink_write = "'s \<Rightarrow> string \<Rightarrow> 's \<times> bool"

record 's ihex_Writer =
  iw_w :: 's
  iw_width :: int
  iw_addr :: "16 word"
  iw_fifo :: "byte list"

definition ihex_NewWriterWidth :: "'s \<Rightarrow> int \<Rightarrow> 's ihex_Writer" where
  "ihex_NewWriterWidth w width = \<lparr>iw_w = w, iw_width = width, iw_addr = 0, iw_fifo = []\<rparr>"

definition ihex_NewWriter :: "'s \<Rightarrow> 's ihex_Writer" where
  "ihex_NewWriter w = ihex_NewWriterWidth w 16"

definition bigEndianBytes16 :: "16 word \<Rightarrow> byte list" where
  "bigEndianBytes16 a = [ucast (drop_bit 8 a), ucast a]"

text \<open>
  emitRecord on the binary image of the fields (binary.Write of a byte, a uint16 or a
  byte slice into a bytes.Buffer does not fail): the checksum is appended, the text is
  the marker, the upper-case hex digits and a newline.
\<close>

definition ihex_emitRecord :: "'s sink_write \<Rightarrow> 's ihex_Writer \<Rightarrow> byte list \<Rightarrow> 's ihex_Writer \<times> error option" where
  "ihex_emitRecord put x buf =
     (let s = ToUpper (hexEncode (buf @ [ihex_calcChecksum buf]));
          (w1, failed) = put (iw_w x) ([CHR '':''] @ s @ [newline])
      in (x\<lparr>iw_w := w1\<rparr>, if failed then Some SinkError else None))"

definition ihex_emitDataRecord :: "'s sink_write \<Rightarrow> 's ihex_Writer \<Rightarrow> byte list \<Rightarrow> 's ihex_Writer \<times> error option" where
  "ihex_emitDataRecord put x p =
     (case ihex_emitRecord put x ([of_nat (length p)] @ bigEndianBytes16 (iw_addr x) @ [Data] @ p) of
        (x1, Some err) \<Rightarrow> (x1, Some err)
      | (x1, None) \<Rightarrow> (x1\<lparr>iw_addr := iw_addr x1 + of_nat (length p)\<rparr>, None))"

text \<open>Flush and Close as in src/intel/write.go; Close drops the error of Flush.\<close>

definition ihex_Flush :: "'s sink_write \<Rightarrow> 's ihex_Writer \<Rightarrow> 's ihex_Writer \<times> error option" where
  "ihex_Flush put x =
     (if 0 < length (iw_fifo x) then
        ihex_emitDataRecord put (x\<lparr>iw_fifo := []\<rparr>) (iw_fifo x)
      else (x, None))"

definition ihex_Close :: "'s sink_write \<Rightarrow> 's ihex_Writer \<Rightarrow> 's ihex_Writer \<times> error option" where
  "ihex_Close put x =
     (let (x1, ignored) = ihex_Flush put x
      in ihex_emitRecord put x1 ([0] @ bigEndianBytes16 0 @ [1]))"

text \<open>
  Flush of the other copy of the ihex writer in the repository (package ihex, with the
  same Writer fields): the data record is emitted whatever the FIFO holds.
\<close>

definition ihex_Flush_draft :: "'s sink_write \<Rightarrow> 's ihex_Writer \<Rightarrow> 's ihex_Writer \<times> error option" where
  "ihex_Flush_draft put x = ihex_emitDataRecord put (x\<lparr>iw_fifo := []\<rparr>) (iw_fifo x)"

text \<open>A sink that keeps every text written to it and never fails.\<close>

definition bufferSink :: "string list sink_write" where
  "bufferSink w s = (w @ [s], False)"

section \<open>Package srec: the writer\<close>

text \<open>
  \<open>AddrMode\<close> is an int with the constants 16, 24 and 32. A nil header is \<open>None\<close>.
\<close>

type_synonym AddrMode = int

definition Addr16 :: AddrMode where "Addr16 = 16"
definition Addr24 :: AddrMode where "Addr24 = 24"
definition Addr32 :: AddrMode where "Addr32 = 32"

record 's srec_Writer =
  sw_w :: 's
  sw_addr :: "32 word"
  sw_count :: "32 word"
  sw_fin :: bool
  sw_tail :: "byte list"
  sw_fifo :: "byte list"
  sw_emitCountRec :: bool
  sw_emitStartRec :: bool
  sw_startAddr :: "32 word"
  sw_addrMode :: AddrMode
  sw_width :: int
  sw_header :: "byte list option"
  sw_headerEmitted :: bool

definition srec_NewWriter :: "'s \<Rightarrow> AddrMode \<Rightarrow> 's srec_Writer" where
  "srec_NewWriter w aMode =
     \<lparr>sw_w = w, sw_addr = 0, sw_count = 0, sw_fin = False, sw_tail = [], sw_fifo = [],
      sw_emitCountRec = False, sw_emitStartRec = False, sw_startAddr = 0,
      sw_addrMode = aMode, sw_width = 10, sw_header = None, sw_headerEmitted = False\<rparr>"

definition bigEndianBin :: "32 word \<Rightarrow> byte list" where
  "bigEndianBin x = [ucast (drop_bit 24 x), ucast (drop_bit 16 x), ucast (drop_bit 8 x), ucast x]"

text \<open>
  The end that the emit functions share: the checksum is appended to the binary image,
  the text is \<open>Sprintf("S%c%s", recTyp, hex)\<close>, written with Fprintln.
\<close>

definition srec_printRecord :: "'s sink_write \<Rightarrow> 's \<Rightarrow> byte \<Rightarrow> byte list \<Rightarrow> 's \<times> bool" where
  "srec_printRecord put w recTyp binBuf =
     put w ([CHR ''S'', char_of (uint recTyp)]
            @ hexEncode (binBuf @ [srec_calcChecksum binBuf]) @ [newline])"

definition srec_emitHeaderRecord :: "'s sink_write \<Rightarrow> 's srec_Writer \<Rightarrow> 's srec_Writer \<times> error option" where
  "srec_emitHeaderRecord put x =
     (let h = (case sw_header x of None \<Rightarrow> [] | Some hb \<Rightarrow> hb);
          (w1, failed) = srec_printRecord put (sw_w x) 0x30 ([of_nat (length h) + 3] @ [0, 0] @ h)
      in (x\<lparr>sw_w := w1\<rparr>, if failed then Some SinkError else None))"

definition srec_emitDataRecord :: "'s sink_write \<Rightarrow> 's srec_Writer \<Rightarrow> byte list \<Rightarrow> 's srec_Writer \<times> error option" where
  "srec_emitDataRecord put x p =
     (let a = bigEndianBin (sw_addr x);
          (binBuf, recTyp) =
            (if sw_addrMode x = Addr16 then ([of_nat (length p) + 3] @ drop 2 a, 0x31)
             else if sw_addrMode x = Addr24 then ([of_nat (length p) + 4] @ drop 1 a, 0x32)
             else if sw_addrMode x = Addr32 then ([of_nat (length p) + 4] @ a, 0x33)
             else ([], 0));
          (w1, failed) = srec_printRecord put (sw_w x) recTyp (binBuf @ p)
      in if failed then (x\<lparr>sw_w := w1\<rparr>, Some SinkError)
         else (x\<lparr>sw_w := w1, sw_addr := sw_addr x + of_nat (length p),
                 sw_count := sw_count x + 1\<rparr>, None))"

definition srec_emitCountRecord :: "'s sink_write \<Rightarrow> 's srec_Writer \<Rightarrow> 's srec_Writer \<times> error option" where
  "srec_emitCountRecord put x =
     (let c = bigEndianBin (sw_count x);
          (binBuf, recTyp) =
            (if 65535 < uint (sw_count x) then ([3 + 1] @ drop 1 c, 0x36)
             else ([2 + 1] @ drop 2 c, 0x35));
          (w1, failed) = srec_printRecord put (sw_w x) recTyp binBuf
      in (x\<lparr>sw_w := w1\<rparr>, if failed then Some SinkError else None))"

definition srec_emitStartAddrRec :: "'s sink_write \<Rightarrow> 's srec_Writer \<Rightarrow> 's srec_Writer \<times> error option" where
  "srec_emitStartAddrRec put x =
     (let a = bigEndianBin (sw_startAddr x);
          (binBuf, recTyp) =
            (if sw_addrMode x = Addr16 then ([3] @ drop 2 a, 0x39)
             else if sw_addrMode x = Addr24 then ([4] @ drop 1 a, 0x38)
             else if sw_addrMode x = Addr32 then ([5] @ a, 0x37)
             else ([], 0));
          (w1, failed) = srec_printRecord put (sw_w x) recTyp binBuf
      in (x\<lparr>sw_w := w1\<rparr>, if failed then Some SinkError else None))"

text \<open>
  The loop of Write. \<open>fifo.Next(width)\<close> takes the bytes out of the FIFO before the
  record is emitted and panics on a negative width; with the width 0 the loop does not
  end while the sink accepts the records, which is the value \<open>None\<close>.
\<close>

partial_function (option) srec_Write_loop ::
  "'s sink_write \<Rightarrow> 's srec_Writer \<Rightarrow> int \<Rightarrow> int
     \<Rightarrow> ('s srec_Writer \<times> int \<times> error option) outcome option" where
  "srec_Write_loop put x writeCount origXferLen =
     (if sw_width x \<le> int (length (sw_fifo x)) then
        (if sw_width x < 0 then Some Panics
         else
           (case srec_emitDataRecord put
                   (x\<lparr>sw_fifo := drop (nat (sw_width x)) (sw_fifo x)\<rparr>)
                   (take (nat (sw_width x)) (sw_fifo x)) of
              (x1, Some err) \<Rightarrow> Some (Returns (x1, writeCount, Some err))
            | (x1, None) \<Rightarrow> srec_Write_loop put x1 (writeCount + sw_width x) origXferLen))
      else Some (Returns (x, origXferLen, None)))"

declare srec_Write_loop.simps [code]

definition srec_Write ::
  "'s sink_write \<Rightarrow> 's srec_Writer \<Rightarrow> byte list
     \<Rightarrow> ('s srec_Writer \<times> int \<times> error option) outcome option" where
  "srec_Write put x p =
     (if sw_fin x then Some (Returns (x, 0, Some WriterClosed))
      else
        (let x1 = (if sw_header x \<noteq> None \<and> \<not> sw_headerEmitted x
                   then fst (srec_emitHeaderRecord put (x\<lparr>sw_headerEmitted := True\<rparr>))
                   else x)
         in srec_Write_loop put (x1\<lparr>sw_fifo := sw_fifo x1 @ p\<rparr>) 0 (int (length p))))"

definition srec_Flush :: "'s sink_write \<Rightarrow> 's srec_Writer \<Rightarrow> 's srec_Writer \<times> error option" where
  "srec_Flush put x =
     (if 0 < length (sw_fifo x) then
        srec_emitDataRecord put (x\<lparr>sw_fifo := []\<rparr>) (sw_fifo x)
      else (x, None))"

text \<open>Close: the deferred function sets \<open>fin\<close> on every path after the guard.\<close>

definition srec_Close :: "'s sink_write \<Rightarrow> 's srec_Writer \<Rightarrow> 's srec_Writer \<times> error option" where
  "srec_Close put x =
     (if sw_fin x then (x, Some WriterAlreadyClosed)
      else
        (case srec_Flush put x of
           (x1, Some err) \<Rightarrow> (x1\<lparr>sw_fin := True\<rparr>, Some err)
         | (x1, None) \<Rightarrow>
        (case (if sw_emitCountRec x1 then srec_emitCountRecord put x1 else (x1, None)) of
           (x2, Some err) \<Rightarrow> (x2\<lparr>sw_fin := True\<rparr>, Some err)
         | (x2, None) \<Rightarrow>
        (case (if sw_emitStartRec x2 then srec_emitStartAddrRec put x2 else (x2, None)) of
           (x3, Some err) \<Rightarrow> (x3\<lparr>sw_fin := True\<rparr>, Some err)
         | (x3, None) \<Rightarrow> (x3\<lparr>sw_fin := True\<rparr>, None)))))"

text \<open>
  Write followed by Close on a sink that keeps the text, then the lines of the text
  decoded and coalesced: the payloads of the data records of the result.
\<close>

definition srec_encode :: "string list srec_Writer \<Rightarrow> byte list \<Rightarrow> string option" where
  "srec_encode x p =
     (case srec_Write bufferSink x p of
        Some (Returns (x1, n, None)) \<Rightarrow>
          (case srec_Close bufferSink x1 of
             (x2, None) \<Rightarrow> Some (concat (sw_w x2))
           | (x2, Some err) \<Rightarrow> None)
      | _ \<Rightarrow> None)"

definition srec_dataPayloads :: "srec_HexRec list \<Rightarrow> byte list" where
  "srec_dataPayloads recs =
     concat (map sr_Data (filter (\<lambda>r. sr_RecordType r \<in> {S1Data, S2Data, S3Data}) recs))"

definition srec_decode_coalesce :: "string \<Rightarrow> error + srec_HexRec list" where
  "srec_decode_coalesce text =
     (case srec_processRecords (splitLines text) of
        Inl err \<Rightarrow> Inl err
      | Inr recs \<Rightarrow> Inr (srec_CoalesceDataRecs recs))"

text \<open>
  The three cases of the switch of decodeRecord differ in the end of the address field
  and in the overhead only; this is their common shape, used to state facts about all
  three at once.
\<close>

definition srec_decodeLayout :: "srecType \<Rightarrow> int \<Rightarrow> int \<Rightarrow> string \<Rightarrow> (error + srec_HexRec) outcome" where
  "srec_decodeLayout recTyp addrEnd ovhd r =
     (case slice r 2 4 of None \<Rightarrow> Panics | Some byteCount \<Rightarrow>
     (case slice r 2 (int (length r) - 2) of None \<Rightarrow> Panics | Some csData \<Rightarrow>
     (case slice r 4 addrEnd of None \<Rightarrow> Panics | Some address \<Rightarrow>
     (case slice r addrEnd (int (length r)) of None \<Rightarrow> Panics | Some data \<Rightarrow>
        srec_decodeFields recTyp byteCount csData address data ovhd))))"

text \<open>
  Reading all lines as the specification words it: the decoder is applied to every
  non-empty line in order, the first error is the result, and otherwise the records of
  all non-empty lines in order.
\<close>

fun readAll_spec :: "(string \<Rightarrow> error + 'a) \<Rightarrow> string list \<Rightarrow> error + 'a list" where
  "readAll_spec decodeLine [] = Inr []"
| "readAll_spec decodeLine (l # ls) =
     (if l = [] then readAll_spec decodeLine ls
      else
        (case decodeLine l of
           Inl err \<Rightarrow> Inl err
         | Inr rec \<Rightarrow>
             (case readAll_spec decodeLine ls of
                Inl err \<Rightarrow> Inl err
              | Inr recs \<Rightarrow> Inr (rec # recs))))"

section \<open>Notions for the round trip of the srec writer\<close>

text \<open>The value of a big-endian byte sequence, continued from \<open>n\<close>.\<close>

definition bigEndianValue :: "int \<Rightarrow> byte list \<Rightarrow> int" where
  "bigEndianValue n bs = foldl (\<lambda>acc b. acc * 256 + uint b) n bs"

text \<open>
  The text of a record as the emit functions of the srec writer build it: the header,
  then the hex digits of the binary image and of its checksum.
\<close>

definition srec_line :: "char \<Rightarrow> byte list \<Rightarrow> string" where
  "srec_line t body = [CHR ''S'', t] @ hexEncode (body @ [srec_calcChecksum body])"

text \<open>The line of emitDataRecord for an address mode, an address and a payload.\<close>

definition srec_dataLine :: "AddrMode \<Rightarrow> 32 word \<Rightarrow> byte list \<Rightarrow> string" where
  "srec_dataLine mode a p =
     (if mode = Addr16 then srec_line CHR ''1'' ((of_nat (length p) + 3) # drop 2 (bigEndianBin a) @ p)
      else if mode = Addr24 then srec_line CHR ''2'' ((of_nat (length p) + 4) # drop 1 (bigEndianBin a) @ p)
      else srec_line CHR ''3'' ((of_nat (length p) + 4) # bigEndianBin a @ p))"

text \<open>
  The full records that the loop of Write takes out of a FIFO \<open>f\<close> with the width
  \<open>w\<close>, from the address \<open>a\<close>; and all records of Write followed by Flush,
  where the rest of the FIFO is a last, shorter record.
\<close>

function srec_chunks :: "nat \<Rightarrow> 32 word \<Rightarrow> byte list \<Rightarrow> (32 word \<times> byte list) list" where
  "srec_chunks w a f =
     (if 0 < w \<and> w \<le> length f
      then (a, take w f) # srec_chunks w (a + of_nat w) (drop w f) else [])"
  by pat_completeness auto
termination
  by (relation "measure (\<lambda>(w, a, f). length f)") auto

declare srec_chunks.simps [simp del]

definition srec_lines :: "AddrMode \<Rightarrow> (32 word \<times> byte list) list \<Rightarrow> string list" where
  "srec_lines mode cs = map (\<lambda>(a, c). srec_dataLine mode a c @ [newline]) cs"

function srec_pairs :: "nat \<Rightarrow> 32 word \<Rightarrow> byte list \<Rightarrow> (32 word \<times> byte list) list" where
  "srec_pairs w a f =
     (if f = [] \<or> w = 0 then []
      else (a, take w f) # srec_pairs w (a + of_nat (length (take w f))) (drop w f))"
  by pat_completeness auto
termination
  by (relation "measure (\<lambda>(w, a, f). length f)") auto

declare srec_pairs.simps [simp del]

text \<open>The record that the reader returns for an address and a payload.\<close>

definition srec_mkrec :: "srecType \<Rightarrow> 32 word \<times> byte list \<Rightarrow> srec_HexRec" where
  "srec_mkrec t bc = \<lparr>sr_Address = fst bc, sr_RecordType = t, sr_Data = snd bc\<rparr>"

text \<open>The two lines of TestCoalesceDataRecs.\<close>

definition scenario_line1 :: string where
  "scenario_line1 = ''S11F00007C0802A6900100049421FFF07C6C1B787C8C23783C6000003863000026''"

definition scenario_line2 :: string where
  "scenario_line2 = ''S111003848656C6C6F20776F726C642E0A0042''"

definition scenario_text :: string where
  "scenario_text = scenario_line1 @ [newline] @ scenario_line2"

section \<open>Facts about the record type table of srec\<close>

lemmas srecType_defs =
  S_Unknown_def S0Header_def S1Data_def S2Data_def S3Data_def
  S5Count_def S6Count_def S7Start_def S8Start_def S9Start_def

lemma srecTypeMap_table:
  "map (\<lambda>v. (srecKey v, v)) srecEnums =
     [(''S0'', 0), (''S1'', 1), (''S2'', 2), (''S3'', 3), (''S5'', 5), (''S6'', 6),
      (''S7'', 7), (''S8'', 8), (''S9'', 9)]"
  by code_simp



lemma srecTypeMap_index_range:
  "srecTypeMap_index h \<in> {0, 1, 2, 3, 5, 6, 7, 8, 9}"
  by (simp add: srecTypeMap_index_def srecTypeMap_def srecTypeMap_table)


lemma srec_layout_cases:
  "srecTypeMap_index h \<in> {S0Header, S1Data, S5Count, S9Start}
   \<or> srecTypeMap_index h \<in> {S2Data, S6Count, S8Start}
   \<or> srecTypeMap_index h \<in> {S3Data, S7Start}"
  using srecTypeMap_index_range [of h] by (auto simp: srecType_defs)




lemma slice_02: "slice r 0 2 = (if 2 \<le> length r then Some (take 2 r) else None)"
  by (auto simp: slice_def)

section \<open>Checksums and single hex digits\<close>

lemma fromHexChar_range: "fromHexChar c = Some v \<Longrightarrow> 0 \<le> v \<and> v < 16"
  by (auto simp: fromHexChar_def Let_def split: if_splits)

lemma hex_byte_neq:
  assumes "0 \<le> a" "a < 16" "0 \<le> b" "b < 16" "0 \<le> a'" "a' < 16" "0 \<le> b'" "b' < 16"
    and "a \<noteq> a' \<or> b \<noteq> b'"
  shows "(word_of_int (a * 16 + b) :: byte) \<noteq> word_of_int (a' * 16 + b')"
proof -
  have ne: "a * 16 + b \<noteq> a' * 16 + b'"
  proof
    assume e: "a * 16 + b = a' * 16 + b'"
    have "a = a'"
    proof (rule ccontr)
      assume "a \<noteq> a'"
      then consider "a < a'" | "a' < a" by linarith
      then show False using e assms(1-8) by cases linarith+
    qed
    with e have "b = b'" by simp
    with \<open>a = a'\<close> assms(9) show False by simp
  qed
  have 1: "take_bit LENGTH(8) (a * 16 + b) = a * 16 + b"
    using assms by (intro take_bit_int_eq_self) simp_all
  have 2: "take_bit LENGTH(8) (a' * 16 + b') = a' * 16 + b'"
    using assms by (intro take_bit_int_eq_self) simp_all
  show ?thesis using ne unfolding word_of_int_eq_iff 1 2 .
qed

lemma hexDecode_update:
  assumes "hexDecode t = Inr b" "k < length t" "fromHexChar c = Some v"
    "fromHexChar (t ! k) \<noteq> Some v"
  shows "\<exists>b'. hexDecode (t[k := c]) = Inr b' \<and> length b' = length b \<and> sum_list b' \<noteq> sum_list b"
  using assms
proof (induction t arbitrary: k b rule: hexDecode.induct)
  case 1
  then show ?case by simp
next
  case (2 p)
  then show ?case by (simp split: option.splits)
next
  case (3 p q rest)
  from "3.prems"(1) obtain x y bs where
    p: "fromHexChar p = Some x" and q: "fromHexChar q = Some y"
    and r: "hexDecode rest = Inr bs" and b: "b = word_of_int (x * 16 + y) # bs"
    by (auto split: option.splits sum.splits)
  note rx = fromHexChar_range [OF p] and ry = fromHexChar_range [OF q]
    and rv = fromHexChar_range [OF "3.prems"(3)]
  consider (zero) "k = 0" | (one) "k = 1" | (more) "2 \<le> k" by linarith
  then show ?case
  proof cases
    case zero
    with "3.prems" p have ne: "x \<noteq> v" by simp
    have "(word_of_int (v * 16 + y) :: byte) \<noteq> word_of_int (x * 16 + y)"
      using rx ry rv ne by (intro hex_byte_neq) auto
    then show ?thesis using zero q r b "3.prems"(3) by simp
  next
    case one
    with "3.prems" q have ne: "y \<noteq> v" by simp
    have "(word_of_int (x * 16 + v) :: byte) \<noteq> word_of_int (x * 16 + y)"
      using rx ry rv ne by (intro hex_byte_neq) auto
    then show ?thesis using one p r b "3.prems"(3) by simp
  next
    case more
    define j where "j = k - 2"
    have j: "k = Suc (Suc j)" using more by (simp add: j_def)
    have "\<exists>b'. hexDecode (rest[j := c]) = Inr b' \<and> length b' = length bs \<and> sum_list b' \<noteq> sum_list bs"
      using "3.IH" [OF p q r _ "3.prems"(3)] "3.prems"(2,4) j by simp
    then show ?thesis using j p q b by auto
  qed
qed

lemma ihex_calcChecksum_sum: "ihex_calcChecksum buf = - sum_list buf"
proof -
  have "foldl (\<lambda>cs b. cs + uint b) a buf = a + sum_list (map uint buf)" for a
    by (induction buf arbitrary: a) auto
  moreover have "(word_of_int (sum_list (map uint buf)) :: byte) = sum_list buf"
    by (induction buf) simp_all
  ultimately show ?thesis by (simp add: ihex_calcChecksum_def)
qed

lemma sum_list_butlast_last:
  "b \<noteq> [] \<Longrightarrow> sum_list (butlast b) + last b = sum_list (b :: byte list)"
  by (induction b) (auto simp: ac_simps)

lemma ihex_checksum_ok_iff:
  "b \<noteq> [] \<Longrightarrow> (last b = ihex_calcChecksum (butlast b)) = (sum_list b = 0)"
proof -
  assume "b \<noteq> []"
  then have "sum_list b = last b + sum_list (butlast b)"
    by (simp add: sum_list_butlast_last [symmetric] add.commute)
  then show ?thesis
    by (simp add: ihex_calcChecksum_sum eq_neg_iff_add_eq_0)
qed

lemma ihex_digit_change:
  assumes ok: "ihex_decodeRecord s = Returns (Inr r)" and i: "1 \<le> i" "i < length s"
    and c: "fromHexChar c = Some v" and ne: "fromHexChar (s ! i) \<noteq> Some v"
  shows "ihex_decodeRecord (s[i := c]) = Returns (Inl BadChecksum)"
proof -
  from i obtain m t where s: "s = m # t" by (cases s) auto
  from i obtain j where j: "i = Suc j" by (cases i) auto
  from ok s obtain b where b: "hexDecode t = Inr b" and bne: "b \<noteq> []"
    and cs: "last b = ihex_calcChecksum (butlast b)"
    by (auto simp: ihex_decodeRecord_def Let_def split: sum.splits if_splits)
  have sum0: "sum_list b = 0" using cs bne by (simp add: ihex_checksum_ok_iff)
  have "\<exists>b'. hexDecode (t[j := c]) = Inr b' \<and> length b' = length b \<and> sum_list b' \<noteq> sum_list b"
    using b i c ne s j by (intro hexDecode_update) auto
  then obtain b' where b': "hexDecode (t[j := c]) = Inr b'" and l: "length b' = length b"
    and sn: "sum_list b' \<noteq> 0" using sum0 by auto
  have b'ne: "b' \<noteq> []" using l bne by auto
  have "last b' \<noteq> ihex_calcChecksum (butlast b')" using sn b'ne by (simp add: ihex_checksum_ok_iff)
  then show ?thesis using s j b' b'ne by (simp add: ihex_decodeRecord_def Let_def)
qed

lemma srec_body_layout:
  "\<exists>ae ov. 4 \<le> ae \<and>
     (\<forall>r. slice r 0 2 = Some h \<longrightarrow>
          srec_decodeRecord_body r = srec_decodeLayout (srecTypeMap_index h) ae ov r)"
  using srec_layout_cases [of h]
proof (elim disjE)
  assume a: "srecTypeMap_index h \<in> {S0Header, S1Data, S5Count, S9Start}"
  have "\<forall>r. slice r 0 2 = Some h \<longrightarrow>
          srec_decodeRecord_body r = srec_decodeLayout (srecTypeMap_index h) 8 3 r"
    using a by (simp add: srec_decodeRecord_body_def srec_decodeLayout_def Let_def split: option.splits)
  then show ?thesis by (intro exI [of _ 8] exI [of _ 3]) simp
next
  assume a: "srecTypeMap_index h \<in> {S2Data, S6Count, S8Start}"
  then have n: "srecTypeMap_index h \<notin> {S0Header, S1Data, S5Count, S9Start}"
    by (auto simp: srecType_defs)
  have "\<forall>r. slice r 0 2 = Some h \<longrightarrow>
          srec_decodeRecord_body r = srec_decodeLayout (srecTypeMap_index h) 10 4 r"
    using a n by (simp add: srec_decodeRecord_body_def srec_decodeLayout_def Let_def split: option.splits)
  then show ?thesis by (intro exI [of _ 10] exI [of _ 4]) simp
next
  assume a: "srecTypeMap_index h \<in> {S3Data, S7Start}"
  then have n: "srecTypeMap_index h \<notin> {S0Header, S1Data, S5Count, S9Start}"
    "srecTypeMap_index h \<notin> {S2Data, S6Count, S8Start}"
    by (auto simp: srecType_defs)
  have "\<forall>r. slice r 0 2 = Some h \<longrightarrow>
          srec_decodeRecord_body r = srec_decodeLayout (srecTypeMap_index h) 12 5 r"
    using a n by (simp add: srec_decodeRecord_body_def srec_decodeLayout_def Let_def split: option.splits)
  then show ?thesis by (intro exI [of _ 12] exI [of _ 5]) simp
qed

lemma srec_calcChecksum_sum: "srec_calcChecksum b = not (sum_list b)"
proof -
  have "foldl (\<lambda>cs v. cs + v) a b = a + sum_list b" for a :: byte
    by (induction b arbitrary: a) (auto simp: ac_simps)
  then show ?thesis by (simp add: srec_calcChecksum_def)
qed

lemma slice_tail2:
  "slice d (int (length d) - 2) (int (length d)) =
     (if 2 \<le> length d then Some (drop (length d - 2) d) else None)"
  by (auto simp: slice_def nat_diff_distrib')

lemma slice_front2:
  "slice d 0 (int (length d) - 2) =
     (if 2 \<le> length d then Some (take (length d - 2) d) else None)"
  by (auto simp: slice_def nat_diff_distrib')

lemma srec_decodeFields_ok:
  assumes "srec_decodeFields t bc cd a d0 ov = Returns (Inr rec)"
  shows "2 \<le> length d0 \<and>
     (\<exists>cs bs. ParseUint16 (drop (length d0 - 2) d0) 8 = Inr cs \<and> hexDecode cd = Inr bs
        \<and> word_of_int cs = srec_calcChecksum bs)"
  using assms
  by (auto simp: srec_decodeFields_def slice_tail2 slice_front2 calcChecksumHexAscii_def
      split: if_splits sum.splits)

lemma srec_decodeFields_mismatch:
  assumes "2 \<le> length d0" "ParseUint16 (drop (length d0 - 2) d0) 8 = Inr cs"
    "hexDecode cd = Inr bs" "word_of_int cs \<noteq> srec_calcChecksum bs"
  shows "srec_decodeFields t bc cd a d0 ov = Returns (Inl ChecksumError)"
  using assms
  by (simp add: srec_decodeFields_def slice_tail2 slice_front2 calcChecksumHexAscii_def)

lemma ParseUint16_two:
  "ParseUint16 [c1, c2] 8 =
     (case fromHexChar c1 of None \<Rightarrow> Inl ErrSyntax
      | Some a \<Rightarrow> (case fromHexChar c2 of None \<Rightarrow> Inl ErrSyntax | Some b \<Rightarrow> Inr (a * 16 + b)))"
proof (cases "fromHexChar c1")
  case None
  then show ?thesis by (simp add: ParseUint16_def)
next
  case (Some a)
  note ra = fromHexChar_range [OF Some]
  show ?thesis
  proof (cases "fromHexChar c2")
    case None
    then show ?thesis using Some ra by (simp add: ParseUint16_def)
  next
    case (Some b)
    note rb = fromHexChar_range [OF Some]
    show ?thesis using \<open>fromHexChar c1 = Some a\<close> Some ra rb by (simp add: ParseUint16_def)
  qed
qed

lemma ParseUint16_update:
  assumes "ParseUint16 s 8 = Inr cs" "length s = 2" "j < 2" "fromHexChar c = Some v"
    "fromHexChar (s ! j) \<noteq> Some v"
  shows "\<exists>cs'. ParseUint16 (s[j := c]) 8 = Inr cs' \<and> (word_of_int cs' :: byte) \<noteq> word_of_int cs"
proof -
  from assms(2) obtain c1 c2 where s: "s = [c1, c2]"
    by (cases s; simp) (metis length_0_conv length_Suc_conv Suc_length_conv list.exhaust)
  from assms(1) s obtain x y where x: "fromHexChar c1 = Some x" and y: "fromHexChar c2 = Some y"
    and cs: "cs = x * 16 + y"
    by (auto simp: ParseUint16_two split: option.splits)
  note rx = fromHexChar_range [OF x] and ry = fromHexChar_range [OF y]
    and rv = fromHexChar_range [OF assms(4)]
  from assms(3) consider "j = 0" | "j = 1" by linarith
  then show ?thesis
  proof cases
    case 1
    with assms(5) s x have "x \<noteq> v" by simp
    then have "(word_of_int (v * 16 + y) :: byte) \<noteq> word_of_int (x * 16 + y)"
      using rx ry rv by (intro hex_byte_neq) auto
    then show ?thesis using 1 s y assms(4) cs by (simp only: list_update_code ParseUint16_two) simp
  next
    case 2
    with assms(5) s y have "y \<noteq> v" by simp
    then have "(word_of_int (x * 16 + v) :: byte) \<noteq> word_of_int (x * 16 + y)"
      using rx ry rv by (intro hex_byte_neq) auto
    then show ?thesis using 2 s x assms(4) cs by (simp only: list_update_code ParseUint16_two One_nat_def) simp
  qed
qed

lemma slice_Some_iff:
  "slice r a b = Some x \<longleftrightarrow>
     0 \<le> a \<and> a \<le> b \<and> b \<le> int (length r) \<and> x = take (nat (b - a)) (drop (nat a) r)"
  by (auto simp: slice_def)

lemma slice_None_iff:
  "slice r a b = None \<longleftrightarrow> \<not> (0 \<le> a \<and> a \<le> b \<and> b \<le> int (length r))"
  by (auto simp: slice_def)

lemma srec_decodeLayout_digit_change:
  assumes ok: "srec_decodeLayout t ae ov r = Returns (Inr rec)"
    and ae: "4 \<le> ae" and i: "2 \<le> i" "i < length r"
    and c: "fromHexChar c = Some v" and ne: "fromHexChar (r ! i) \<noteq> Some v"
  shows "srec_decodeLayout t ae ov (r[i := c]) = Returns (Inl ChecksumError)"
proof -
  let ?n = "length r"
  let ?r' = "r[i := c]"
  define m where "m = nat ae"
  have aem: "ae = int m" using ae by (simp add: m_def)
  from ok obtain bc cd a d0 where
    s1: "slice r 2 4 = Some bc" and s2: "slice r 2 (int ?n - 2) = Some cd"
    and s3: "slice r 4 ae = Some a" and s4: "slice r ae (int ?n) = Some d0"
    and f: "srec_decodeFields t bc cd a d0 ov = Returns (Inr rec)"
    by (auto simp: srec_decodeLayout_def split: option.splits)
  have n4: "4 \<le> ?n" using s1 by (simp add: slice_Some_iff)
  have mn: "4 \<le> m" "m \<le> ?n" using s3 s4 aem by (simp_all add: slice_Some_iff)
  have cd: "cd = take (?n - 4) (drop 2 r)"
    using s2 n4 by (simp add: slice_Some_iff nat_diff_distrib')
  have d0: "d0 = drop m r" using s4 aem by (simp add: slice_Some_iff)
  from srec_decodeFields_ok [OF f] obtain cs bs where
    l2: "2 \<le> length d0" and p: "ParseUint16 (drop (length d0 - 2) d0) 8 = Inr cs"
    and h: "hexDecode cd = Inr bs" and eq: "word_of_int cs = srec_calcChecksum bs"
    by blast
  have m2: "m + 2 \<le> ?n" using l2 d0 by simp
  have tail: "drop (length d0 - 2) d0 = drop (?n - 2) r"
    using m2 by (simp add: d0)
  define bc' where "bc' = take 2 (drop 2 ?r')"
  define a' where "a' = take (m - 4) (drop 4 ?r')"
  define cd' where "cd' = take (?n - 4) (drop 2 ?r')"
  define d0' where "d0' = drop m ?r'"
  have t1: "slice ?r' 2 4 = Some bc'" using n4 by (simp add: slice_Some_iff bc'_def)
  have t2: "slice ?r' 2 (int (length ?r') - 2) = Some cd'"
    using n4 by (simp add: slice_Some_iff cd'_def nat_diff_distrib')
  have t3: "slice ?r' 4 ae = Some a'"
    using mn aem by (simp add: slice_Some_iff a'_def nat_diff_distrib')
  have t4: "slice ?r' ae (int (length ?r')) = Some d0'"
    using mn aem by (simp add: slice_Some_iff d0'_def)
  have unfold': "srec_decodeLayout t ae ov ?r' = srec_decodeFields t bc' cd' a' d0' ov"
    unfolding srec_decodeLayout_def t1 t2 t3 t4 by simp
  have l2': "2 \<le> length d0'" using m2 by (simp add: d0'_def)
  have tail': "drop (length d0' - 2) d0' = drop (?n - 2) ?r'"
    using m2 by (simp add: d0'_def)
  show ?thesis
  proof (cases "i < ?n - 2")
    case True
    have cd'eq: "cd' = cd[i - 2 := c]"
      using i by (simp add: cd'_def cd drop_update_swap take_update_swap)
    have k: "i - 2 < length cd" using True i n4 by (simp add: cd)
    have "Suc (Suc (i - 2)) = i" using i by simp
    then have nth: "cd ! (i - 2) = r ! i" using True i n4 k by (simp add: cd)
    from hexDecode_update [OF h k c] ne nth obtain bs' where
      h': "hexDecode cd' = Inr bs'" and sn: "sum_list bs' \<noteq> sum_list bs"
      by (auto simp: cd'eq)
    have p': "ParseUint16 (drop (length d0' - 2) d0') 8 = Inr cs"
      using p True by (simp add: tail tail' drop_update_cancel)
    have "word_of_int cs \<noteq> srec_calcChecksum bs'"
      using eq sn by (simp add: srec_calcChecksum_sum)
    from srec_decodeFields_mismatch [OF l2' p' h' this] show ?thesis
      by (simp add: unfold')
  next
    case False
    have cd'eq: "cd' = cd"
      using False i by (simp add: cd'_def cd drop_update_swap take_update_cancel)
    let ?ck = "drop (?n - 2) r"
    have ck': "drop (?n - 2) ?r' = ?ck[i - (?n - 2) := c]"
      using False by (simp add: drop_update_swap)
    have lk: "length ?ck = 2" using n4 by simp
    have j: "i - (?n - 2) < 2" using i by linarith
    have "?n - 2 + (i - (?n - 2)) = i" using False by simp
    then have nth: "?ck ! (i - (?n - 2)) = r ! i" using n4 by (simp only: nth_drop)
    from p have pk: "ParseUint16 ?ck 8 = Inr cs" by (simp add: tail)
    from ParseUint16_update [OF pk lk j c] ne nth obtain cs' where
      p': "ParseUint16 (?ck[i - (?n - 2) := c]) 8 = Inr cs'"
      and cn: "(word_of_int cs' :: byte) \<noteq> word_of_int cs"
      by auto
    have p'': "ParseUint16 (drop (length d0' - 2) d0') 8 = Inr cs'"
      using p' by (simp add: tail' ck')
    have h': "hexDecode cd' = Inr bs" using h by (simp add: cd'eq)
    have "word_of_int cs' \<noteq> srec_calcChecksum bs" using cn eq by simp
    from srec_decodeFields_mismatch [OF l2' p'' h' this] show ?thesis
      by (simp add: unfold')
  qed
qed

lemma srec_digit_change:
  assumes ok: "srec_decodeRecord s = Inr q" and i: "2 \<le> i" "i < length s"
    and c: "fromHexChar c = Some v" and ne: "fromHexChar (s ! i) \<noteq> Some v"
  shows "srec_decodeRecord (s[i := c]) = Inl ChecksumError"
proof -
  have len: "2 \<le> length s" using i by simp
  have h: "slice s 0 2 = Some (take 2 s)" using len by (simp add: slice_02)
  have h': "slice (s[i := c]) 0 2 = Some (take 2 s)"
    using len i by (simp add: slice_02 take_update_cancel)
  from srec_body_layout [of "take 2 s"] obtain ae ov where ae: "4 \<le> ae"
    and b: "\<And>r. slice r 0 2 = Some (take 2 s) \<Longrightarrow>
          srec_decodeRecord_body r = srec_decodeLayout (srecTypeMap_index (take 2 s)) ae ov r"
    by blast
  have "srec_decodeLayout (srecTypeMap_index (take 2 s)) ae ov s = Returns (Inr q)"
    using ok b [OF h] by (simp add: srec_decodeRecord_def split: outcome.splits)
  from srec_decodeLayout_digit_change [OF this ae i c ne]
  show ?thesis using b [OF h'] by (simp add: srec_decodeRecord_def)
qed


section \<open>Reading all lines: the copies that append every record\<close>

text \<open>
  processRecords of srec is the reading of all lines as the specification words it. The
  second copy of ReadFile in src/intel/read.go is so on the lines on which decodeRecord
  returns; on a line on which it panics (the marker alone) the panic leaves ReadFile.
\<close>


lemma srec_processRecords_loop_spec:
  "srec_processRecords_loop hrecs records =
     (case readAll_spec srec_decodeRecord records of
        Inl err \<Rightarrow> Inl err
      | Inr recs \<Rightarrow> Inr (hrecs @ recs))"
proof (induction records arbitrary: hrecs)
  case Nil
  show ?case by simp
next
  case (Cons l ls)
  show ?case
  proof (cases "l = []")
    case True
    then show ?thesis by (simp add: Cons.IH)
  next
    case False
    then show ?thesis by (simp add: Cons.IH split: sum.splits)
  qed
qed

lemma srec_processRecords_readAll:
  "srec_processRecords records = readAll_spec srec_decodeRecord records"
  by (simp add: srec_processRecords_def srec_processRecords_loop_spec split: sum.splits)

lemma ihex_ReadFile_loop_spec:
  assumes "\<forall>l \<in> set records. l \<noteq> [] \<longrightarrow> ihex_decodeRecord l = Returns (decodeLine l)"
  shows "ihex_ReadFile_loop hrecs records =
     Returns (case readAll_spec decodeLine records of
                Inl err \<Rightarrow> ([], Some err)
              | Inr recs \<Rightarrow> (hrecs @ recs, None))"
  using assms
proof (induction records arbitrary: hrecs)
  case Nil
  show ?case by simp
next
  case (Cons l ls)
  then have ih: "ihex_ReadFile_loop acc ls =
     Returns (case readAll_spec decodeLine ls of
                Inl err \<Rightarrow> ([], Some err)
              | Inr recs \<Rightarrow> (acc @ recs, None))" for acc
    by simp
  show ?case
  proof (cases "l = []")
    case True
    then show ?thesis by (simp add: ih)
  next
    case False
    with Cons.prems have "ihex_decodeRecord l = Returns (decodeLine l)" by simp
    then show ?thesis using False by (simp add: ih split: sum.splits)
  qed
qed

section \<open>Round trip of the srec writer\<close>

text \<open>Hex digits: decoding and parsing what hex.EncodeToString wrote.\<close>

lemma hexDigit_table:
  "list_all (\<lambda>n. fromHexChar (hexDigit n) = Some n \<and> hexDigit n \<noteq> newline)
     [0, 1, 2, 3, 4, 5, 6, 7, 8, 9, 10, 11, 12, 13, 14, 15]"
  by code_simp

lemma hexDigit_props:
  assumes "0 \<le> n" "n < 16"
  shows "fromHexChar (hexDigit n) = Some n" and "hexDigit n \<noteq> newline"
proof -
  from assms have "n \<in> set [0, 1, 2, 3, 4, 5, 6, 7, 8, 9, 10, 11, 12, 13, 14, 15]"
    by (simp del: upto.simps) presburger
  with hexDigit_table show "fromHexChar (hexDigit n) = Some n" and "hexDigit n \<noteq> newline"
    unfolding list_all_iff by blast+
qed

lemma uint_byte_nibbles:
  "0 \<le> uint (b :: byte) div 16" "uint b div 16 < 16" "0 \<le> uint b mod 16" "uint b mod 16 < 16"
proof -
  have "uint b < 256" using uint_lt2p [of b] by simp
  then show "uint b div 16 < 16" by simp
  show "0 \<le> uint b div 16" by (simp add: pos_imp_zdiv_nonneg_iff)
qed simp_all

lemma hexDigit_nibbles:
  "fromHexChar (hexDigit (uint (b :: byte) div 16)) = Some (uint b div 16)"
  "fromHexChar (hexDigit (uint b mod 16)) = Some (uint b mod 16)"
  "newline \<noteq> hexDigit (uint b div 16)" "newline \<noteq> hexDigit (uint b mod 16)"
  using hexDigit_props [OF uint_byte_nibbles(1,2), of b] hexDigit_props [OF uint_byte_nibbles(3,4), of b]
  by auto

lemma hexEncode_Nil [simp]: "hexEncode [] = []"
  by (simp add: hexEncode_def)

lemma hexEncode_Cons:
  "hexEncode (b # bs) = hexDigit (uint b div 16) # hexDigit (uint b mod 16) # hexEncode bs"
  by (simp add: hexEncode_def)

lemma hexEncode_append: "hexEncode (xs @ ys) = hexEncode xs @ hexEncode ys"
  by (simp add: hexEncode_def)

lemma length_hexEncode: "length (hexEncode bs) = 2 * length bs"
  by (induction bs) (simp_all add: hexEncode_Cons)

lemma newline_notin_hexEncode: "newline \<notin> set (hexEncode bs)"
  by (induction bs) (auto simp: hexEncode_Cons hexDigit_nibbles)

lemma hexDecode_hexEncode: "hexDecode (hexEncode bs) = Inr bs"
proof (induction bs)
  case Nil
  show ?case by simp
next
  case (Cons b bs)
  have "uint b div 16 * 16 + uint b mod 16 = uint b" by simp
  then show ?case
    by (simp add: hexEncode_Cons hexDigit_nibbles Cons.IH)
qed

lemma bigEndianValue_mono: "0 \<le> n \<Longrightarrow> n \<le> bigEndianValue n bs"
proof (induction bs arbitrary: n)
  case Nil
  show ?case by (simp add: bigEndianValue_def)
next
  case (Cons b bs)
  have "0 \<le> uint b" by simp
  with Cons.prems have le: "n \<le> n * 256 + uint b" by linarith
  with Cons.prems have "0 \<le> n * 256 + uint b" by linarith
  from Cons.IH [OF this] le show ?case by (simp add: bigEndianValue_def)
qed

lemma parseUintLoop_hexEncode:
  assumes "0 \<le> n" "bigEndianValue n bs \<le> maxVal"
  shows "parseUintLoop maxVal n (hexEncode bs) = Inr (bigEndianValue n bs)"
  using assms
proof (induction bs arbitrary: n)
  case Nil
  show ?case by (simp add: bigEndianValue_def)
next
  case (Cons b bs)
  let ?hi = "uint b div 16" and ?lo = "uint b mod 16"
  have v: "(n * 16 + ?hi) * 16 + ?lo = n * 256 + uint b" by simp
  have h0: "0 \<le> n * 16 + ?hi" using Cons.prems(1) uint_byte_nibbles(1) [of b] by simp
  have n0: "0 \<le> n * 256 + uint b" using Cons.prems(1) by simp
  have fin: "bigEndianValue (n * 256 + uint b) bs \<le> maxVal"
    using Cons.prems(2) by (simp add: bigEndianValue_def)
  have le1: "n * 256 + uint b \<le> maxVal"
    using bigEndianValue_mono [OF n0, of bs] fin by linarith
  have g: "x \<le> x * 16 + y" if "0 \<le> x" "0 \<le> y" for x y :: int
    using that by linarith
  have "n * 16 + ?hi \<le> (n * 16 + ?hi) * 16 + ?lo"
    using h0 uint_byte_nibbles(3) [of b] by (rule g)
  then have le0: "n * 16 + ?hi \<le> maxVal" using le1 v by linarith
  have "parseUintLoop maxVal n (hexEncode (b # bs)) =
        parseUintLoop maxVal (n * 256 + uint b) (hexEncode bs)"
    using le0 le1 v
    by (simp add: hexEncode_Cons hexDigit_nibbles) (simp add: ac_simps)
  then show ?case using Cons.IH [OF n0 fin] by (simp add: bigEndianValue_def)
qed

lemma ParseUint16_hexEncode:
  assumes "bs \<noteq> []" "bigEndianValue 0 bs \<le> 2 ^ bits - 1"
  shows "ParseUint16 (hexEncode bs) bits = Inr (bigEndianValue 0 bs)"
proof -
  have "hexEncode bs \<noteq> []" using assms(1) by (cases bs) (simp_all add: hexEncode_Cons)
  then show ?thesis using parseUintLoop_hexEncode [OF _ assms(2)] by (simp add: ParseUint16_def)
qed

text \<open>
  The reader on a line of the writer: the fields are cut where the writer put them, the
  checksum agrees, and what is left to check is the byte count against the overhead of
  the record type.
\<close>

lemma slice_middle:
  "a = int (length xs) \<Longrightarrow> b = int (length xs + length ys)
   \<Longrightarrow> slice (xs @ ys @ zs) a b = Some ys"
  by (simp add: slice_def)

lemma bigEndianValue_bound:
  "0 \<le> n \<Longrightarrow> n < 256 ^ m \<Longrightarrow> 0 \<le> bigEndianValue n bs \<and> bigEndianValue n bs < 256 ^ (m + length bs)"
proof (induction bs arbitrary: n m)
  case Nil
  then show ?case by (simp add: bigEndianValue_def)
next
  case (Cons b bs)
  have b: "0 \<le> uint b" "uint b < 256" using uint_lt2p [of b] by simp_all
  have 0: "0 \<le> n * 256 + uint b" using Cons.prems(1) b by simp
  have "n + 1 \<le> 256 ^ m" using Cons.prems(2) by simp
  then have "(n + 1) * 256 \<le> 256 ^ m * 256" by (rule mult_right_mono) simp
  then have 1: "n * 256 + uint b < 256 ^ Suc m" using b by (simp add: algebra_simps)
  from Cons.IH [OF 0 1] show ?case by (simp add: bigEndianValue_def)
qed

lemma bigEndianValue_single: "bigEndianValue 0 [b] = uint b"
  by (simp add: bigEndianValue_def)

text \<open>
  A line made of any two header characters and the hex digits of a byte count, \<open>k\<close>
  address bytes, a payload and a checksum byte, cut with the layout of \<open>k\<close> address
  bytes: the checks of decodeRecord in their order.
\<close>

lemma srec_decodeLayout_framed:
  assumes h: "length h = 2"
    and k: "length addr = k" "1 \<le> k" "k \<le> 4" and ae: "ae = 4 + 2 * int k"
  shows "srec_decodeLayout ty ae ov (h @ hexEncode ((bc # addr @ p) @ [cs])) =
     Returns (if cs \<noteq> srec_calcChecksum (bc # addr @ p) then Inl ChecksumError
              else if uint bc = int (length p) + ov
              then Inr \<lparr>sr_Address = word_of_int (bigEndianValue 0 addr),
                        sr_RecordType = ty, sr_Data = p\<rparr>
              else Inl ByteCountError)"
proof -
  let ?H = hexEncode
  let ?body = "bc # addr @ p"
  let ?r = "h @ ?H (?body @ [cs])"
  have len: "int (length ?r) = 6 + 2 * int k + 2 * int (length p)"
    using k h by (simp add: length_hexEncode)
  have r1: "?r = h @ ?H [bc] @ (?H addr @ ?H p @ ?H [cs])"
    by (simp add: hexEncode_append hexEncode_Cons)
  have r2: "?r = h @ ?H ?body @ ?H [cs]"
    by (simp add: hexEncode_def)
  have r3: "?r = (h @ ?H [bc]) @ ?H addr @ (?H p @ ?H [cs])"
    by (simp add: hexEncode_append hexEncode_Cons)
  have r4: "?r = (h @ ?H [bc] @ ?H addr) @ (?H p @ ?H [cs]) @ []"
    by (simp add: hexEncode_append hexEncode_Cons)
  have s1: "slice ?r 2 4 = Some (?H [bc])"
    by (subst r1, rule slice_middle) (use h in \<open>simp_all add: length_hexEncode\<close>)
  have s2: "slice ?r 2 (int (length ?r) - 2) = Some (?H ?body)"
    unfolding len by (subst r2, rule slice_middle) (use k h in \<open>simp_all add: length_hexEncode\<close>)
  have s3: "slice ?r 4 ae = Some (?H addr)"
    unfolding ae by (subst r3, rule slice_middle) (use k h in \<open>simp_all add: length_hexEncode\<close>)
  have s4: "slice ?r ae (int (length ?r)) = Some (?H p @ ?H [cs])"
    unfolding ae len by (subst r4, rule slice_middle) (use k h in \<open>simp_all add: length_hexEncode\<close>)
  let ?d0 = "?H p @ ?H [cs]"
  have t1: "slice ?d0 (int (length ?d0) - 2) (int (length ?d0)) = Some (?H [cs])"
    by (simp add: slice_def length_hexEncode)
  have t2: "slice ?d0 0 (int (length ?d0) - 2) = Some (?H p)"
    by (simp add: slice_def length_hexEncode)
  have p1: "ParseUint16 (?H [cs]) 8 = Inr (uint cs)"
    using ParseUint16_hexEncode [of "[cs]" 8] uint_lt2p [of cs]
    by (simp add: bigEndianValue_single)
  have p2: "calcChecksumHexAscii (?H ?body) = Inr (srec_calcChecksum ?body)"
    by (simp add: calcChecksumHexAscii_def hexDecode_hexEncode)
  have av: "bigEndianValue 0 addr < 256 ^ 4"
  proof -
    have "bigEndianValue 0 addr < 256 ^ (0 + length addr)"
      using bigEndianValue_bound [of 0 0 addr] by simp
    also have "\<dots> \<le> (256::int) ^ 4" using k by (intro power_increasing) simp_all
    finally show ?thesis .
  qed
  have addr_ne: "addr \<noteq> []" using k by auto
  have p3: "ParseUint16 (?H addr) 32 = Inr (bigEndianValue 0 addr)"
    using ParseUint16_hexEncode [OF addr_ne, of 32] av by simp
  have p4: "ParseUint16 (?H [bc]) 8 = Inr (uint bc)"
    using ParseUint16_hexEncode [of "[bc]" 8] uint_lt2p [of bc]
    by (simp add: bigEndianValue_single)
  show ?thesis
    unfolding srec_decodeLayout_def s1 s2 s3 s4 option.case srec_decodeFields_def t1 t2
      p1 p2 p3 p4 sum.case hexDecode_hexEncode word_of_int_uint
    by simp
qed


lemma srec_decodeLayout_line:
  assumes k: "length addr = k" "1 \<le> k" "k \<le> 4" and ae: "ae = 4 + 2 * int k"
  shows "srec_decodeLayout ty ae ov (srec_line t (bc # addr @ p)) =
     Returns (if uint bc = int (length p) + ov
              then Inr \<lparr>sr_Address = word_of_int (bigEndianValue 0 addr),
                        sr_RecordType = ty, sr_Data = p\<rparr>
              else Inl ByteCountError)"
  using srec_decodeLayout_framed [of "[CHR ''S'', t]" addr k ae ty ov bc p
      "srec_calcChecksum (bc # addr @ p)"] assms
  by (simp add: srec_line_def)

lemma srecTypeMap_index_data:
  "srecTypeMap_index [CHR ''S'', CHR ''1''] = S1Data"
  "srecTypeMap_index [CHR ''S'', CHR ''2''] = S2Data"
  "srecTypeMap_index [CHR ''S'', CHR ''3''] = S3Data"
  by (simp_all add: srecTypeMap_index_def srecTypeMap_def srecTypeMap_table srecType_defs)

lemma slice_line_header: "slice (srec_line t body) 0 2 = Some [CHR ''S'', t]"
  by (simp add: srec_line_def slice_def)

lemma srec_decodeRecord_body_line:
  "srec_decodeRecord_body (srec_line CHR ''1'' body) = srec_decodeLayout S1Data 8 3 (srec_line CHR ''1'' body)"
  "srec_decodeRecord_body (srec_line CHR ''2'' body) = srec_decodeLayout S2Data 10 4 (srec_line CHR ''2'' body)"
  "srec_decodeRecord_body (srec_line CHR ''3'' body) = srec_decodeLayout S3Data 12 5 (srec_line CHR ''3'' body)"
  unfolding srec_decodeRecord_body_def srec_decodeLayout_def slice_line_header option.case Let_def
    srecTypeMap_index_data
  by (simp_all add: srecType_defs split: option.splits)

lemma uint_byteCount:
  assumes "n + k < 256"
  shows "uint (of_nat n + of_nat k :: byte) = int n + int k"
proof -
  have "unat (of_nat (n + k) :: byte) = n + k"
    using assms by (simp only: unat_of_nat) simp
  then have "uint (of_nat (n + k) :: byte) = int (n + k)"
    by (simp only: uint_nat)
  then show ?thesis by (simp only: of_nat_add)
qed

lemma uint_bigEndianBin:
  "map uint (bigEndianBin a) =
     [uint a div 16777216 mod 256, uint a div 65536 mod 256, uint a div 256 mod 256, uint a mod 256]"
proof -
  have t: "take_bit LENGTH(32) (uint a) = uint a"
    by (rule take_bit_int_eq_self) (use uint_lt2p [of a] in simp_all)
  have g: "uint (ucast (drop_bit n a) :: byte) = uint a div 2 ^ n mod 256" for n
    unfolding unsigned_ucast_eq unsigned_drop_bit_eq t
    by (simp add: take_bit_eq_mod drop_bit_eq_div)
  have p: "(2::int) ^ 24 = 16777216" "(2::int) ^ 16 = 65536" "(2::int) ^ 8 = 256" by simp_all
  have u: "uint (ucast a :: byte) = uint a mod 256"
    unfolding unsigned_ucast_eq by (simp add: take_bit_eq_mod)
  show ?thesis
    unfolding bigEndianBin_def list.map g p u by (rule refl)
qed

lemma length_bigEndianBin [simp]: "length (bigEndianBin a) = 4"
  by (simp add: bigEndianBin_def)

lemma bigEndianValue_map: "bigEndianValue n bs = foldl (\<lambda>acc v. acc * 256 + v) n (map uint bs)"
  by (simp add: bigEndianValue_def foldl_map)

lemma bigEndianValue_drop2:
  assumes "uint a < 65536"
  shows "bigEndianValue 0 (drop 2 (bigEndianBin a)) = uint a"
proof -
  have d: "uint a div 256 mod 256 = uint a div 256"
    using assms by (intro mod_pos_pos_trivial) (simp_all add: pos_imp_zdiv_nonneg_iff)
  have "bigEndianValue 0 (drop 2 (bigEndianBin a)) = uint a div 256 mod 256 * 256 + uint a mod 256"
    by (simp add: bigEndianValue_map drop_map [symmetric] uint_bigEndianBin)
  then show ?thesis using d by simp
qed

lemma bigEndianValue_drop1:
  assumes "uint a < 16777216"
  shows "bigEndianValue 0 (drop (Suc 0) (bigEndianBin a)) = uint a"
proof -
  let ?v = "uint a div 256"
  have v: "0 \<le> ?v" "?v < 65536" using assms by (simp_all add: pos_imp_zdiv_nonneg_iff)
  have d: "?v div 256 mod 256 = ?v div 256"
    using v by (intro mod_pos_pos_trivial) (simp_all add: pos_imp_zdiv_nonneg_iff)
  have e: "uint a div 65536 = ?v div 256" by (simp add: div_mult2_eq [symmetric])
  have "bigEndianValue 0 (drop (Suc 0) (bigEndianBin a)) =
        (uint a div 65536 mod 256 * 256 + ?v mod 256) * 256 + uint a mod 256"
    by (simp add: bigEndianValue_map drop_map [symmetric] uint_bigEndianBin)
  also have "\<dots> = (?v div 256 * 256 + ?v mod 256) * 256 + uint a mod 256"
    using d e by simp
  also have "\<dots> = uint a" by simp
  finally show ?thesis .
qed

text \<open>
  emitDataRecord on the sink that keeps the text, and the reader on its line: a record
  in the 16-bit and the 24-bit mode, the byte-count error in the 32-bit mode.
\<close>

lemma srec_emitDataRecord_bufferSink:
  assumes "sw_addrMode x \<in> {Addr16, Addr24, Addr32}"
  shows "srec_emitDataRecord bufferSink x p =
     (x\<lparr>sw_w := sw_w x @ [srec_dataLine (sw_addrMode x) (sw_addr x) p @ [newline]],
        sw_addr := sw_addr x + of_nat (length p),
        sw_count := sw_count x + 1\<rparr>, None)"
proof -
  have c: "char_of (49::int) = CHR ''1''" "char_of (50::int) = CHR ''2''" "char_of (51::int) = CHR ''3''"
    by code_simp+
  from assms consider "sw_addrMode x = 16" | "sw_addrMode x = 24" | "sw_addrMode x = 32"
    by (auto simp: Addr16_def Addr24_def Addr32_def)
  then show ?thesis
    by cases
      (simp_all add: srec_emitDataRecord_def srec_printRecord_def bufferSink_def srec_dataLine_def
        srec_line_def Addr16_def Addr24_def Addr32_def c Let_def)
qed

lemma srec_decode_dataLine16:
  assumes "uint a < 65536" "length p \<le> 252"
  shows "srec_decodeRecord (srec_dataLine Addr16 a p) =
           Inr \<lparr>sr_Address = a, sr_RecordType = S1Data, sr_Data = p\<rparr>"
proof -
  have bc: "uint (of_nat (length p) + 3 :: byte) = int (length p) + 3"
    using uint_byteCount [of "length p" 3] assms(2) by simp
  show ?thesis
    using srec_decodeLayout_line [of "drop 2 (bigEndianBin a)" 2 8 S1Data 3 "CHR ''1''"
        "of_nat (length p) + 3" p]
    by (simp add: srec_dataLine_def srec_decodeRecord_def srec_decodeRecord_body_line bc
        bigEndianValue_drop2 [OF assms(1)])
qed

lemma srec_decode_dataLine24:
  assumes "uint a < 16777216" "length p \<le> 251"
  shows "srec_decodeRecord (srec_dataLine Addr24 a p) =
           Inr \<lparr>sr_Address = a, sr_RecordType = S2Data, sr_Data = p\<rparr>"
proof -
  have bc: "uint (of_nat (length p) + 4 :: byte) = int (length p) + 4"
    using uint_byteCount [of "length p" 4] assms(2) by simp
  show ?thesis
    using srec_decodeLayout_line [of "drop 1 (bigEndianBin a)" 3 10 S2Data 4 "CHR ''2''"
        "of_nat (length p) + 4" p]
    by (simp add: srec_dataLine_def srec_decodeRecord_def srec_decodeRecord_body_line bc
        bigEndianValue_drop1 [OF assms(1)] Addr16_def Addr24_def)
qed

lemma srec_decode_dataLine32:
  assumes "length p \<le> 251"
  shows "srec_decodeRecord (srec_dataLine Addr32 a p) = Inl ByteCountError"
proof -
  have bc: "uint (of_nat (length p) + 4 :: byte) = int (length p) + 4"
    using uint_byteCount [of "length p" 4] assms by simp
  show ?thesis
    using srec_decodeLayout_line [of "bigEndianBin a" 4 12 S3Data 5 "CHR ''3''"
        "of_nat (length p) + 4" p]
    by (simp add: srec_dataLine_def srec_decodeRecord_def srec_decodeRecord_body_line bc
        Addr16_def Addr24_def Addr32_def)
qed

text \<open>
  The loop of Write ends for a positive width, with the full records emitted and fewer
  than \<open>width\<close> bytes left in the FIFO.
\<close>

lemma srec_Write_loop_bufferSink:
  assumes "sw_addrMode x \<in> {Addr16, Addr24, Addr32}" "0 < sw_width x" "w = nat (sw_width x)"
  shows "\<exists>x'. srec_Write_loop bufferSink x wc n = Some (Returns (x', n, None))
     \<and> sw_w x' = sw_w x @ srec_lines (sw_addrMode x) (srec_chunks w (sw_addr x) (sw_fifo x))
     \<and> sw_fifo x' = drop (w * length (srec_chunks w (sw_addr x) (sw_fifo x))) (sw_fifo x)
     \<and> sw_addr x' = sw_addr x + of_nat (w * length (srec_chunks w (sw_addr x) (sw_fifo x)))
     \<and> length (sw_fifo x') < w
     \<and> sw_addrMode x' = sw_addrMode x \<and> sw_fin x' = sw_fin x
     \<and> sw_emitCountRec x' = sw_emitCountRec x \<and> sw_emitStartRec x' = sw_emitStartRec x"
  using assms
proof (induction "length (sw_fifo x)" arbitrary: x wc rule: less_induct)
  case less
  have w0: "0 < w" and wi: "sw_width x = int w" using less.prems by simp_all
  show ?case
  proof (cases "w \<le> length (sw_fifo x)")
    case False
    then have "srec_chunks w (sw_addr x) (sw_fifo x) = []" by (simp add: srec_chunks.simps)
    moreover have "srec_Write_loop bufferSink x wc n = Some (Returns (x, n, None))"
      using False wi by (subst srec_Write_loop.simps) simp
    ultimately show ?thesis using False by (simp add: srec_lines_def)
  next
    case True
    let ?p = "take w (sw_fifo x)"
    let ?x0 = "x\<lparr>sw_fifo := drop w (sw_fifo x)\<rparr>"
    let ?x1 = "?x0\<lparr>sw_w := sw_w x @ [srec_dataLine (sw_addrMode x) (sw_addr x) ?p @ [newline]],
                   sw_addr := sw_addr x + of_nat (length ?p),
                   sw_count := sw_count x + 1\<rparr>"
    have e: "srec_emitDataRecord bufferSink ?x0 ?p = (?x1, None)"
      using srec_emitDataRecord_bufferSink [of ?x0 ?p] less.prems(1) by simp
    have lp: "length ?p = w" using True by simp
    have step: "srec_Write_loop bufferSink x wc n = srec_Write_loop bufferSink ?x1 (wc + sw_width x) n"
      using True wi w0 e by (subst srec_Write_loop.simps) simp
    have ch: "srec_chunks w (sw_addr x) (sw_fifo x) =
        (sw_addr x, ?p) # srec_chunks w (sw_addr x + of_nat w) (drop w (sw_fifo x))"
      using True w0 by (subst srec_chunks.simps) simp
    let ?cs = "srec_chunks w (sw_addr x + of_nat w) (drop w (sw_fifo x))"
    have lt: "length (sw_fifo ?x1) < length (sw_fifo x)" using True w0 by simp
    have p1: "sw_addrMode ?x1 \<in> {Addr16, Addr24, Addr32}" using less.prems(1) by simp
    have p2: "0 < sw_width ?x1" using less.prems(2) by simp
    have p3: "w = nat (sw_width ?x1)" using less.prems(3) by simp
    have x1: "sw_w ?x1 = sw_w x @ [srec_dataLine (sw_addrMode x) (sw_addr x) ?p @ [newline]]"
      "sw_addr ?x1 = sw_addr x + of_nat w" "sw_fifo ?x1 = drop w (sw_fifo x)"
      "sw_addrMode ?x1 = sw_addrMode x" "sw_fin ?x1 = sw_fin x"
      "sw_emitCountRec ?x1 = sw_emitCountRec x" "sw_emitStartRec ?x1 = sw_emitStartRec x"
      using lp by simp_all
    from less.hyps [OF lt p1 p2 p3, of "wc + sw_width x", unfolded x1]
    obtain x' where
      r: "srec_Write_loop bufferSink ?x1 (wc + sw_width x) n = Some (Returns (x', n, None))"
      and s: "sw_w x' = (sw_w x @ [srec_dataLine (sw_addrMode x) (sw_addr x) ?p @ [newline]])
                @ srec_lines (sw_addrMode x) ?cs"
      and f: "sw_fifo x' = drop (w * length ?cs) (drop w (sw_fifo x))"
      and a: "sw_addr x' = sw_addr x + of_nat w + of_nat (w * length ?cs)"
      and l: "length (sw_fifo x') < w"
      and o: "sw_addrMode x' = sw_addrMode x" "sw_fin x' = sw_fin x"
        "sw_emitCountRec x' = sw_emitCountRec x" "sw_emitStartRec x' = sw_emitStartRec x"
      by blast
    have c1: "sw_w x' = sw_w x @ srec_lines (sw_addrMode x) (srec_chunks w (sw_addr x) (sw_fifo x))"
      unfolding s ch by (simp add: srec_lines_def)
    have c2: "sw_fifo x' = drop (w * length (srec_chunks w (sw_addr x) (sw_fifo x))) (sw_fifo x)"
      unfolding f ch by (simp add: add.commute)
    have c3: "sw_addr x' = sw_addr x + of_nat (w * length (srec_chunks w (sw_addr x) (sw_fifo x)))"
      unfolding a ch by (simp add: add.assoc)
    show ?thesis
      using r c1 c2 c3 l o unfolding step by blast
  qed
qed

lemma srec_pairs_chunks:
  assumes "0 < w"
  shows "srec_pairs w a f =
     srec_chunks w a f @
       (if drop (w * length (srec_chunks w a f)) f = [] then []
        else [(a + of_nat (w * length (srec_chunks w a f)),
               drop (w * length (srec_chunks w a f)) f)])"
  using assms
proof (induction w a f rule: srec_chunks.induct)
  case (1 w a f)
  show ?case
  proof (cases "w \<le> length f")
    case True
    then have ne: "f \<noteq> []" using "1.prems" by auto
    have ch: "srec_chunks w a f = (a, take w f) # srec_chunks w (a + of_nat w) (drop w f)"
      using True "1.prems" by (subst srec_chunks.simps) simp
    have pa: "srec_pairs w a f = (a, take w f) # srec_pairs w (a + of_nat w) (drop w f)"
      using True ne "1.prems" by (subst srec_pairs.simps) simp
    have ih: "srec_pairs w (a + of_nat w) (drop w f) =
       srec_chunks w (a + of_nat w) (drop w f) @
       (if drop (w * length (srec_chunks w (a + of_nat w) (drop w f))) (drop w f) = [] then []
        else [(a + of_nat w + of_nat (w * length (srec_chunks w (a + of_nat w) (drop w f))),
               drop (w * length (srec_chunks w (a + of_nat w) (drop w f))) (drop w f))])"
      using "1.IH" True "1.prems" by simp
    show ?thesis unfolding pa ch ih by (simp add: add.commute add.assoc)
  next
    case False
    have ch: "srec_chunks w a f = []" using False by (subst srec_chunks.simps) simp
    have pa: "srec_pairs w a f = (if f = [] then [] else [(a, f)])"
      using False "1.prems"
      by (subst srec_pairs.simps, cases "f = []")
        (simp_all add: srec_pairs.simps [of w _ "[]"])
    show ?thesis unfolding pa ch by simp
  qed
qed

lemma uint_add_of_nat:
  assumes "uint (a :: 32 word) + int n < 2 ^ 32"
  shows "uint (a + of_nat n) = uint a + int n"
proof -
  have a0: "0 \<le> uint a" by simp
  have n: "int n < 2 ^ 32" using assms a0 by linarith
  have "uint (of_nat n :: 32 word) = int n mod 2 ^ 32"
    by (simp add: uint_nat unat_of_nat take_bit_eq_mod zmod_int)
  also have "\<dots> = int n" using n by simp
  finally have un: "uint (of_nat n :: 32 word) = int n" .
  have "uint (a + of_nat n) = (uint a + uint (of_nat n :: 32 word)) mod 2 ^ LENGTH(32)"
    by (rule uint_word_ariths)
  also have "\<dots> = (uint a + int n) mod 2 ^ 32" by (simp only: un) simp
  also have "\<dots> = uint a + int n" using assms a0 by (intro mod_pos_pos_trivial) simp_all
  finally show ?thesis .
qed

lemma srec_pairs_props:
  assumes "0 < w" "uint a + int (length f) \<le> B" "B < 2 ^ 32"
  shows "\<forall>(b, c) \<in> set (srec_pairs w a f). uint b < B \<and> c \<noteq> [] \<and> length c \<le> w"
  using assms
proof (induction w a f rule: srec_pairs.induct)
  case (1 w a f)
  show ?case
  proof (cases "f = []")
    case True
    then show ?thesis by (simp add: srec_pairs.simps)
  next
    case False
    let ?c = "take w f"
    let ?a' = "a + of_nat (length ?c)"
    have lc: "?c \<noteq> []" "length ?c \<le> w" using False "1.prems"(1) by simp_all
    have split: "int (length ?c) + int (length (drop w f)) = int (length f)"
      by (simp add: min_def)
    have pa: "srec_pairs w a f = (a, ?c) # srec_pairs w ?a' (drop w f)"
      using False "1.prems"(1) by (subst srec_pairs.simps) simp
    have f0: "0 < int (length f)" using False by simp
    have here: "uint a < B" using "1.prems"(2) f0 by linarith
    have "uint a + int (length ?c) \<le> B" using "1.prems"(2) split by linarith
    then have "uint a + int (length ?c) < 2 ^ 32" using "1.prems"(3) by linarith
    then have ua': "uint ?a' = uint a + int (length ?c)" by (rule uint_add_of_nat)
    have "uint ?a' + int (length (drop w f)) \<le> B"
      unfolding ua' using "1.prems"(2) split by linarith
    from "1.IH" [OF _ "1.prems"(1) this "1.prems"(3)] False "1.prems"(1)
    have "\<forall>(b, c) \<in> set (srec_pairs w ?a' (drop w f)). uint b < B \<and> c \<noteq> [] \<and> length c \<le> w"
      by simp
    then show ?thesis unfolding pa using here lc by simp
  qed
qed

text \<open>The records of one Write are contiguous, and the coalescer merges them into one run.\<close>

lemma srec_coalesce_pairs:
  assumes "0 < w" "t \<in> {S1Data, S2Data, S3Data}" "sc_dataRecGroup st" "sc_addressCounter st = a"
  shows "foldl (srec_coalesce_step pt) st (map (srec_mkrec t) (srec_pairs w a f)) =
           st\<lparr>sc_data := sc_data st @ f, sc_addressCounter := a + of_nat (length f)\<rparr>"
  using assms
proof (induction w a f arbitrary: st rule: srec_pairs.induct)
  case (1 w a f)
  show ?case
  proof (cases "f = []")
    case True
    then show ?thesis using "1.prems"(4) by (simp add: srec_pairs.simps)
  next
    case False
    let ?c = "take w f"
    let ?a' = "a + of_nat (length ?c)"
    let ?st1 = "st\<lparr>sc_data := sc_data st @ ?c, sc_addressCounter := ?a'\<rparr>"
    have pa: "srec_pairs w a f = (a, ?c) # srec_pairs w ?a' (drop w f)"
      using False "1.prems"(1) by (subst srec_pairs.simps) simp
    have step: "srec_coalesce_step pt st (srec_mkrec t (a, ?c)) = ?st1"
      using "1.prems"(2,3,4) by (auto simp: srec_coalesce_step_def srec_mkrec_def)
    have g: "sc_dataRecGroup ?st1" "sc_addressCounter ?st1 = ?a'" using "1.prems"(3) by simp_all
    have n: "min (length f) w + (length f - w) = length f" by (simp add: min_def)
    have len: "(of_nat (min (length f) w) :: 32 word) + of_nat (length f - w) = of_nat (length f)"
      by (simp only: of_nat_add [symmetric] n)
    have "foldl (srec_coalesce_step pt) ?st1 (map (srec_mkrec t) (srec_pairs w ?a' (drop w f))) =
          ?st1\<lparr>sc_data := sc_data ?st1 @ drop w f,
                sc_addressCounter := ?a' + of_nat (length (drop w f))\<rparr>"
      using "1.IH" [OF _ "1.prems"(1,2) g] False "1.prems"(1) by simp
    then show ?thesis unfolding pa by (simp add: step add.assoc len del: of_nat_diff)
  qed
qed

lemma srec_preferred_pairs:
  assumes "t \<in> {S1Data, S2Data, S3Data}" "ps \<noteq> []"
  shows "srec_preferredDataRecType (map (srec_mkrec t) ps) = t"
proof -
  have f: "filter (\<lambda>r. sr_RecordType r = u) (map (srec_mkrec t) ps) =
           (if u = t then map (srec_mkrec t) ps else [])" for u
    by (induction ps) (auto simp: srec_mkrec_def)
  show ?thesis using assms
    by (auto simp: srec_preferredDataRecType_def f srecType_defs)
qed

lemma srec_Coalesce_pairs:
  assumes "0 < w" "t \<in> {S1Data, S2Data, S3Data}"
  shows "srec_CoalesceDataRecs (map (srec_mkrec t) (srec_pairs w a f)) =
           (if f = [] then [] else [\<lparr>sr_Address = a, sr_RecordType = t, sr_Data = f\<rparr>])"
proof (cases "f = []")
  case True
  then show ?thesis
    by (simp add: srec_pairs.simps srec_CoalesceDataRecs_def srec_coalesce_init_def)
next
  case False
  let ?c = "take w f"
  let ?a' = "a + of_nat (length ?c)"
  let ?st1 = "srec_coalesce_init\<lparr>sc_dataRecGroup := True, sc_dataBaseAddr := a,
                 sc_addressCounter := ?a', sc_data := ?c\<rparr>"
  have pa: "srec_pairs w a f = (a, ?c) # srec_pairs w ?a' (drop w f)"
    using False assms(1) by (subst srec_pairs.simps) simp
  have ne: "srec_pairs w a f \<noteq> []" unfolding pa by simp
  have pt: "srec_preferredDataRecType (map (srec_mkrec t) (srec_pairs w a f)) = t"
    by (rule srec_preferred_pairs [OF assms(2) ne])
  have step: "srec_coalesce_step t srec_coalesce_init (srec_mkrec t (a, ?c)) = ?st1"
    using assms(2) by (auto simp: srec_coalesce_step_def srec_mkrec_def srec_coalesce_init_def)
  have g: "sc_dataRecGroup ?st1" "sc_addressCounter ?st1 = ?a'" by simp_all
  have fin: "foldl (srec_coalesce_step t) srec_coalesce_init (map (srec_mkrec t) (srec_pairs w a f)) =
        ?st1\<lparr>sc_data := sc_data ?st1 @ drop w f,
              sc_addressCounter := ?a' + of_nat (length (drop w f))\<rparr>"
    unfolding pa using srec_coalesce_pairs [OF assms g, of t "drop w f"] by (simp add: step)
  show ?thesis
    unfolding srec_CoalesceDataRecs_def pt Let_def fin
    using False by (simp add: srec_emitJumboDataRec_def srec_coalesce_init_def)
qed

lemma splitLines_line:
  "newline \<notin> set l \<Longrightarrow> splitLines (l @ newline # rest) = l # splitLines rest"
proof (induction l)
  case Nil
  show ?case by simp
next
  case (Cons c l)
  then show ?case by (auto split: list.splits)
qed

lemma splitLines_concat:
  "\<forall>l \<in> set ls. newline \<notin> set l
   \<Longrightarrow> splitLines (concat (map (\<lambda>l. l @ [newline]) ls)) = ls @ [[]]"
  by (induction ls) (simp_all add: splitLines_line)

lemma readAll_spec_all_ok:
  "\<forall>l \<in> set ls. l \<noteq> [] \<and> decodeLine l = Inr (g l)
   \<Longrightarrow> readAll_spec decodeLine (ls @ [[]]) = Inr (map g ls)"
  by (induction ls) simp_all

lemma readAll_spec_first_fails:
  "l \<noteq> [] \<Longrightarrow> decodeLine l = Inl err \<Longrightarrow> readAll_spec decodeLine (l # ls) = Inl err"
  by simp

lemma srec_line_chars:
  assumes "t \<in> {CHR ''1'', CHR ''2'', CHR ''3''}"
  shows "newline \<notin> set (srec_line t body)" "srec_line t body \<noteq> []"
proof -
  have "CHR ''S'' \<noteq> newline" "t \<noteq> newline" using assms by (auto simp: newline_def)
  then show "newline \<notin> set (srec_line t body)"
    using newline_notin_hexEncode [of "body @ [srec_calcChecksum body]"]
    by (auto simp: srec_line_def)
  show "srec_line t body \<noteq> []" by (simp add: srec_line_def)
qed

lemma srec_dataLine_chars: "newline \<notin> set (srec_dataLine mode a c)" "srec_dataLine mode a c \<noteq> []"
  unfolding srec_dataLine_def by (simp_all only: srec_line_chars insert_iff simp_thms if_cancel split: if_splits)

lemma srec_lines_concat:
  "concat (srec_lines mode ps) =
     concat (map (\<lambda>l. l @ [newline]) (map (\<lambda>(a, c). srec_dataLine mode a c) ps))"
  by (simp add: srec_lines_def comp_def case_prod_unfold)

lemma srec_encode_NewWriter:
  assumes "mode \<in> {Addr16, Addr24, Addr32}"
  shows "srec_encode (srec_NewWriter [] mode) p = Some (concat (srec_lines mode (srec_pairs 10 0 p)))"
proof -
  let ?x = "(srec_NewWriter [] mode)\<lparr>sw_fifo := p\<rparr>"
  let ?cs = "srec_chunks 10 0 p"
  have w: "srec_Write bufferSink (srec_NewWriter [] mode) p =
           srec_Write_loop bufferSink ?x 0 (int (length p))"
    by (simp add: srec_Write_def srec_NewWriter_def)
  have x: "sw_addrMode ?x \<in> {Addr16, Addr24, Addr32}" "0 < sw_width ?x" "10 = nat (sw_width ?x)"
    "sw_w ?x = []" "sw_addr ?x = 0" "sw_fifo ?x = p" "sw_addrMode ?x = mode"
    "sw_fin ?x = False" "sw_emitCountRec ?x = False" "sw_emitStartRec ?x = False"
    using assms by (simp_all add: srec_NewWriter_def)
  from srec_Write_loop_bufferSink [OF x(1,2,3), of 0 "int (length p)", unfolded x]
  obtain x' where
    r: "srec_Write_loop bufferSink ?x 0 (int (length p)) = Some (Returns (x', int (length p), None))"
    and s: "sw_w x' = [] @ srec_lines mode ?cs"
    and f: "sw_fifo x' = drop (10 * length ?cs) p"
    and a: "sw_addr x' = 0 + of_nat (10 * length ?cs)"
    and o: "sw_addrMode x' = mode" "sw_fin x' = False"
      "sw_emitCountRec x' = False" "sw_emitStartRec x' = False"
    by blast
  have m: "sw_addrMode (x'\<lparr>sw_fifo := []\<rparr>) \<in> {Addr16, Addr24, Addr32}" using o(1) assms by simp
  have cl: "sw_w (fst (srec_Close bufferSink x')) =
              srec_lines mode ?cs @
                (if drop (10 * length ?cs) p = [] then []
                 else [srec_dataLine mode (of_nat (10 * length ?cs)) (drop (10 * length ?cs) p) @ [newline]])"
    "snd (srec_Close bufferSink x') = None"
    using s f a o srec_emitDataRecord_bufferSink [OF m, of "sw_fifo x'"]
    by (simp_all add: srec_Close_def srec_Flush_def)
  have "srec_encode (srec_NewWriter [] mode) p = Some (concat (sw_w (fst (srec_Close bufferSink x'))))"
    using cl(2) by (cases "srec_Close bufferSink x'") (simp add: srec_encode_def w r)
  also have "sw_w (fst (srec_Close bufferSink x')) = srec_lines mode (srec_pairs 10 0 p)"
    unfolding cl(1) by (simp add: srec_pairs_chunks srec_lines_def)
  finally show ?thesis .
qed

lemma srec_decode_lines:
  assumes "\<forall>(a, c) \<in> set ps. srec_decodeRecord (srec_dataLine mode a c) = Inr (srec_mkrec t (a, c))"
  shows "srec_processRecords (splitLines (concat (srec_lines mode ps))) = Inr (map (srec_mkrec t) ps)"
proof -
  let ?ls = "map (\<lambda>(a, c). srec_dataLine mode a c) ps"
  have nl: "\<forall>l \<in> set ?ls. newline \<notin> set l" by (auto simp: srec_dataLine_chars)
  have sp: "splitLines (concat (srec_lines mode ps)) = ?ls @ [[]]"
    unfolding srec_lines_concat by (rule splitLines_concat [OF nl])
  have "readAll_spec srec_decodeRecord (?ls @ [[]]) = Inr (map (srec_mkrec t) ps)"
    using assms
  proof (induction ps)
    case Nil
    show ?case by simp
  next
    case (Cons q qs)
    obtain a c where q: "q = (a, c)" by (cases q)
    from Cons.prems q have d: "srec_decodeRecord (srec_dataLine mode a c) = Inr (srec_mkrec t (a, c))"
      by simp
    from Cons have ih: "readAll_spec srec_decodeRecord (map (\<lambda>(a, c). srec_dataLine mode a c) qs @ [[]]) =
        Inr (map (srec_mkrec t) qs)" by simp
    show ?case using d ih q by (simp add: srec_dataLine_chars)
  qed
  then show ?thesis by (simp add: srec_processRecords_readAll sp)
qed

text \<open>
  A new writer in the 16-bit or the 24-bit mode, one Write of \<open>p\<close> and Close: the
  text decodes and coalesces to one data record at the address 0 with the payload
  \<open>p\<close> (to no record for the empty payload), so the payloads of the data records
  give \<open>p\<close> back, as long as the addresses fit the address field.
\<close>

theorem srec_payload_comes_back:
  assumes "mode = Addr16 \<and> t = S1Data \<and> length p \<le> 65536
         \<or> mode = Addr24 \<and> t = S2Data \<and> length p \<le> 16777216"
  shows "\<exists>text. srec_encode (srec_NewWriter [] mode) p = Some text
     \<and> srec_decode_coalesce text =
         Inr (if p = [] then [] else [\<lparr>sr_Address = 0, sr_RecordType = t, sr_Data = p\<rparr>])
     \<and> map_sum id srec_dataPayloads (srec_decode_coalesce text) = Inr p"
proof -
  let ?ps = "srec_pairs 10 0 p"
  have m: "mode \<in> {Addr16, Addr24, Addr32}" and t: "t \<in> {S1Data, S2Data, S3Data}"
    using assms by auto
  have dec: "\<forall>(a, c) \<in> set ?ps. srec_decodeRecord (srec_dataLine mode a c) = Inr (srec_mkrec t (a, c))"
    using assms
  proof (elim disjE conjE)
    assume a: "mode = Addr16" "t = S1Data" "length p \<le> 65536"
    have "\<forall>(b, c) \<in> set ?ps. uint b < 65536 \<and> c \<noteq> [] \<and> length c \<le> 10"
      using srec_pairs_props [of 10 0 p 65536] a(3) by simp
    then show ?thesis
      using a(1,2) by (auto simp: srec_decode_dataLine16 srec_mkrec_def)
  next
    assume a: "mode = Addr24" "t = S2Data" "length p \<le> 16777216"
    have "\<forall>(b, c) \<in> set ?ps. uint b < 16777216 \<and> c \<noteq> [] \<and> length c \<le> 10"
      using srec_pairs_props [of 10 0 p 16777216] a(3) by simp
    then show ?thesis
      using a(1,2) by (auto simp: srec_decode_dataLine24 srec_mkrec_def)
  qed
  have "srec_decode_coalesce (concat (srec_lines mode ?ps)) =
          Inr (srec_CoalesceDataRecs (map (srec_mkrec t) ?ps))"
    by (simp add: srec_decode_coalesce_def srec_decode_lines [OF dec])
  then have "srec_decode_coalesce (concat (srec_lines mode ?ps)) =
          Inr (if p = [] then [] else [\<lparr>sr_Address = 0, sr_RecordType = t, sr_Data = p\<rparr>])"
    using srec_Coalesce_pairs [OF _ t, of 10 0 p] by simp
  moreover from this have
    "map_sum id srec_dataPayloads (srec_decode_coalesce (concat (srec_lines mode ?ps))) = Inr p"
    using t by (auto simp: srec_dataPayloads_def)
  ultimately show ?thesis
    using srec_encode_NewWriter [OF m, of p] by blast
qed

text \<open>
  The same in the 32-bit mode: for every payload that is not empty the first line of
  the text is rejected with the byte-count error.
\<close>

theorem srec_addr32_rejected:
  assumes "p \<noteq> []"
  shows "\<exists>text. srec_encode (srec_NewWriter [] Addr32) p = Some text
     \<and> srec_decode_coalesce text = Inl ByteCountError"
proof -
  let ?ps = "srec_pairs 10 0 p"
  let ?c = "take 10 p"
  have pa: "?ps = (0, ?c) # srec_pairs 10 (0 + of_nat (length ?c)) (drop 10 p)"
    using assms by (subst srec_pairs.simps) simp
  have d: "srec_decodeRecord (srec_dataLine Addr32 0 ?c) = Inl ByteCountError"
    by (rule srec_decode_dataLine32) simp
  have sp: "splitLines (concat (srec_lines Addr32 ?ps)) =
      srec_dataLine Addr32 0 ?c #
        splitLines (concat (srec_lines Addr32 (srec_pairs 10 (0 + of_nat (length ?c)) (drop 10 p))))"
    unfolding pa by (simp add: srec_lines_def splitLines_line srec_dataLine_chars)
  have "srec_decode_coalesce (concat (srec_lines Addr32 ?ps)) = Inl ByteCountError"
    unfolding srec_decode_coalesce_def srec_processRecords_readAll sp
    using d by (simp add: srec_dataLine_chars)
  then show ?thesis using srec_encode_NewWriter [of Addr32 p] by simp
qed

section \<open>Close of the ihex writer\<close>

text \<open>
  Close of src/intel/write.go leaves the FIFO empty, and on a writer with an empty FIFO
  it writes the end-of-file line to the sink and returns the error of that write. So a
  Close after a Close writes the end-of-file line again, for every sink and every
  writer state: the ihex Writer has no closed state.
\<close>

lemma ihex_Close_leaves_fifo_empty: "iw_fifo (fst (ihex_Close put x)) = []"
  by (auto simp: ihex_Close_def ihex_Flush_def ihex_emitDataRecord_def ihex_emitRecord_def
      Let_def split: prod.splits option.splits if_splits)

lemma ihex_Close_empty_fifo:
  assumes "iw_fifo x = []"
  shows "ihex_Close put x =
     (x\<lparr>iw_w := fst (put (iw_w x) ('':00000001FF'' @ [newline]))\<rparr>,
      if snd (put (iw_w x) ('':00000001FF'' @ [newline])) then Some SinkError else None)"
proof -
  have e: "[CHR '':''] @ ToUpper (hexEncode (([0] @ bigEndianBytes16 0 @ [1]) @
      [ihex_calcChecksum ([0] @ bigEndianBytes16 0 @ [1])])) @ [newline] = '':00000001FF'' @ [newline]"
    by code_simp
  have f: "ihex_Flush put x = (x, None)" using assms by (simp add: ihex_Flush_def)
  show ?thesis
    unfolding ihex_Close_def f Let_def prod.case ihex_emitRecord_def e
    by (simp add: case_prod_beta)
qed

lemma ihex_Close_after_Close:
  "ihex_Close put (fst (ihex_Close put x)) =
     ((fst (ihex_Close put x))\<lparr>iw_w := fst (put (iw_w (fst (ihex_Close put x))) ('':00000001FF'' @ [newline]))\<rparr>,
      if snd (put (iw_w (fst (ihex_Close put x))) ('':00000001FF'' @ [newline]))
      then Some SinkError else None)"
  by (rule ihex_Close_empty_fifo [OF ihex_Close_leaves_fifo_empty])

section \<open>The claims\<close>

text \<open>
  C1 (round trip of the srec writer, every address width). In the 32-bit address mode
  emitDataRecord writes the byte count \<open>len(p) + 4\<close>, where the four address bytes and
  the checksum make five; the reader (overhead \<open>4 + 1\<close>) rejects the record. Writing the
  single byte 0 with a new 32-bit writer and closing it gives one S3 line, and decoding
  that line fails with the byte-count error, so no payload comes back. The same holds
  for every payload that is not empty (\<open>srec_addr32_rejected\<close>), while in the 16-bit
  and 24-bit modes the payload comes back (\<open>srec_payload_comes_back\<close>).
\<close>

theorem srec_roundtrip_addr32_fails:
  "srec_encode (srec_NewWriter [] Addr32) [0] = Some (''S3050000000000fa'' @ [newline])
   \<and> srec_decode_coalesce (''S3050000000000fa'' @ [newline]) = Inl ByteCountError"
  by code_simp

text \<open>
  C2 (the two lines of the coalescing scenario). The claim says that the two lines
  coalesce to one record. The second line carries the address 0x0038, not 0x001C, so
  the records are not contiguous and the result has two records.
\<close>

theorem scenario_two_records_counterexample:
  "map_sum id length (srec_decode_coalesce scenario_text) = Inr 2"
  by code_simp

text \<open>
  C2 as amended: both lines decode, to S1 records at 0x0000 with 28 bytes and at 0x0038
  with 14 bytes; 0x0000 + 28 is 0x001C, so the second record opens a new run and
  coalescing gives two S1 records with these addresses and payload lengths.
\<close>

theorem scenario_coalesce_amended:
  "map_sum id (map (\<lambda>r. (sr_Address r, sr_RecordType r, length (sr_Data r))))
     (srec_processRecords (splitLines scenario_text)) = Inr [(0, S1Data, 28), (0x38, S1Data, 14)]
   \<and> map_sum id (map (\<lambda>r. (sr_Address r, sr_RecordType r, length (sr_Data r))))
     (srec_decode_coalesce scenario_text) = Inr [(0, S1Data, 28), (0x38, S1Data, 14)]"
  by code_simp

text \<open>
  C3 (a second Close is an error and emits nothing). The ihex Writer has no closed
  flag and its Close has no guard: on a new writer the second Close returns no error
  and writes a second end-of-file record (for any writer state and sink,
  \<open>ihex_Close_after_Close\<close>).
\<close>

theorem ihex_Close_twice_counterexample:
  "ihex_Close bufferSink (fst (ihex_Close bufferSink (ihex_NewWriter []))) =
     (\<lparr>iw_w = ['':00000001FF'' @ [newline], '':00000001FF'' @ [newline]],
       iw_width = 16, iw_addr = 0, iw_fifo = []\<rparr>, None)"
  by code_simp

text \<open>
  C3 as amended, for the srec writer: after any call of Close the writer is closed, and
  a further Close returns the error "Writer already closed" and leaves the writer and
  its sink as they are, for every sink and every writer state.
\<close>

theorem srec_Close_twice:
  "sw_fin (fst (srec_Close put x)) \<and>
   srec_Close put (fst (srec_Close put x)) = (fst (srec_Close put x), Some WriterAlreadyClosed)"
proof -
  have f: "sw_fin (fst (srec_Close put x))"
    by (auto simp: srec_Close_def split: prod.splits option.splits)
  show ?thesis using f by (simp add: srec_Close_def [of put "fst (srec_Close put x)"])
qed

theorem srec_Close_twice_witness:
  "srec_Close bufferSink (fst (srec_Close bufferSink (srec_NewWriter [] Addr16))) =
     ((srec_NewWriter [] Addr16)\<lparr>sw_fin := True\<rparr>, Some WriterAlreadyClosed)"
proof -
  have c: "fst (srec_Close bufferSink (srec_NewWriter [] Addr16)) =
      (srec_NewWriter [] Addr16)\<lparr>sw_fin := True\<rparr>"
    by (simp add: srec_Close_def srec_Flush_def srec_NewWriter_def)
  show ?thesis using srec_Close_twice [of bufferSink "srec_NewWriter [] Addr16"] c by simp
qed

text \<open>
  C4 (reading all lines). The first copy of ReadFile in src/intel/read.go returns from
  inside the loop at the first non-empty line: a file with one valid end-of-file record
  gives no record and no error, where the second copy gives the record.
\<close>

theorem ihex_ReadFile_draft_drops_records:
  "ihex_ReadFile_draft (\<lambda>fn. Inr ('':00000001FF'' @ [newline])) ''firmware.hex'' = Returns ([], None)
   \<and> ihex_ReadFile (\<lambda>fn. Inr ('':00000001FF'' @ [newline])) ''firmware.hex'' =
       Returns ([\<lparr>ih_Address = 0, ih_RecordType = EndOfFile, ih_Data = []\<rparr>], None)"
  by code_simp

text \<open>
  C5 (changing any single byte of a decoded line gives the checksum error). The marker
  of an ihex line and the type header of an srec line are not under the checksum: with
  another first character the ihex end-of-file line decodes to the same record, and
  the srec line S9030000FC with the header S1 decodes to a data record. A digit in the
  other letter case has the same value and the line decodes as before; a character that
  is no hex digit stops the hex decoding before the checksum is looked at.
\<close>

theorem marker_change_undetected_counterexample:
  "ihex_decodeRecord '':00000001FF'' =
     Returns (Inr \<lparr>ih_Address = 0, ih_RecordType = EndOfFile, ih_Data = []\<rparr>)
   \<and> ihex_decodeRecord ''X00000001FF'' =
     Returns (Inr \<lparr>ih_Address = 0, ih_RecordType = EndOfFile, ih_Data = []\<rparr>)
   \<and> srec_decodeRecord ''S9030000FC'' =
     Inr \<lparr>sr_Address = 0, sr_RecordType = S9Start, sr_Data = []\<rparr>
   \<and> srec_decodeRecord ''S1030000FC'' =
     Inr \<lparr>sr_Address = 0, sr_RecordType = S1Data, sr_Data = []\<rparr>
   \<and> ihex_decodeRecord '':00000001Ff'' =
     Returns (Inr \<lparr>ih_Address = 0, ih_RecordType = EndOfFile, ih_Data = []\<rparr>)
   \<and> ihex_decodeRecord '':00000001FG'' =
     Returns (Inl (UnableToDecode (InvalidByteError CHR ''G'')))"
  by code_simp

text \<open>
  C5 as amended: in a line that decodes successfully, replacing one character after the
  marker (ihex: any position from 1; srec: any position from 2, after the type header)
  by a hex digit of another value makes decoding fail with the checksum error.
\<close>

theorem checksum_detects_digit_change:
  assumes "i < length s" and "fromHexChar c = Some v" and "fromHexChar (s ! i) \<noteq> Some v"
  shows "(ihex_decodeRecord s = Returns (Inr r) \<and> 1 \<le> i
            \<longrightarrow> ihex_decodeRecord (s[i := c]) = Returns (Inl BadChecksum))
       \<and> (srec_decodeRecord s = Inr q \<and> 2 \<le> i
            \<longrightarrow> srec_decodeRecord (s[i := c]) = Inl ChecksumError)"
  using assms by (auto intro: ihex_digit_change srec_digit_change)

theorem checksum_detects_digit_change_witness:
  "ihex_decodeRecord '':00000001FF'' = Returns (Inr \<lparr>ih_Address = 0, ih_RecordType = EndOfFile, ih_Data = []\<rparr>)
   \<and> ihex_decodeRecord '':00000001FE'' = Returns (Inl BadChecksum)
   \<and> srec_decodeRecord ''S9030000FC'' = Inr \<lparr>sr_Address = 0, sr_RecordType = S9Start, sr_Data = []\<rparr>
   \<and> srec_decodeRecord ''S9030100FC'' = Inl ChecksumError"
proof -
  have a: "ihex_decodeRecord '':00000001FF'' = Returns (Inr \<lparr>ih_Address = 0, ih_RecordType = EndOfFile, ih_Data = []\<rparr>)"
    by code_simp
  have b: "srec_decodeRecord ''S9030000FC'' = Inr \<lparr>sr_Address = 0, sr_RecordType = S9Start, sr_Data = []\<rparr>"
    by code_simp
  have e: "fromHexChar CHR ''E'' = Some 14" "fromHexChar CHR ''F'' = Some 15"
    "fromHexChar CHR ''1'' = Some 1" "fromHexChar CHR ''0'' = Some 0"
    by code_simp+
  have 1: "ihex_decodeRecord ('':00000001FF''[10 := CHR ''E'']) = Returns (Inl BadChecksum)"
    using checksum_detects_digit_change [of 10 "'':00000001FF''" "CHR ''E''" 14
        "\<lparr>ih_Address = 0, ih_RecordType = EndOfFile, ih_Data = []\<rparr>"] a e
    by simp
  have 2: "srec_decodeRecord (''S9030000FC''[5 := CHR ''1'']) = Inl ChecksumError"
    using checksum_detects_digit_change [of 5 "''S9030000FC''" "CHR ''1''" 1 _
        "\<lparr>sr_Address = 0, sr_RecordType = S9Start, sr_Data = []\<rparr>"] b e
    by simp
  show ?thesis using a b 1 2 by simp
qed

text \<open>
  C6 (Flush on an empty buffer is a no-op). The Flush of the other copy of the ihex
  writer emits a data record without looking at the FIFO: on a new writer it writes a
  data record of length zero, where the Flush of src/intel/write.go writes nothing.
\<close>

theorem ihex_Flush_draft_emits_empty_record:
  "ihex_Flush_draft bufferSink (ihex_NewWriter []) =
     (\<lparr>iw_w = ['':0000000000'' @ [newline]], iw_width = 16, iw_addr = 0, iw_fifo = []\<rparr>, None)
   \<and> ihex_Flush bufferSink (ihex_NewWriter []) = (ihex_NewWriter [], None)"
  by code_simp

text \<open>The guarded Flush of src/intel/write.go and of the srec writer, on any empty FIFO.\<close>

lemma ihex_Flush_empty: "iw_fifo x = [] \<Longrightarrow> ihex_Flush put x = (x, None)"
  by (simp add: ihex_Flush_def)

lemma srec_Flush_empty: "sw_fifo x = [] \<Longrightarrow> srec_Flush put x = (x, None)"
  by (simp add: srec_Flush_def)

text \<open>
  C7 (coalescing is idempotent). A run with no payload bytes is emitted when the next
  data record is not contiguous, and dropped at a non-data record and at the end of the
  input (the guard there is the length of the buffer, not the flag of the open run). Two
  empty data records at the addresses 7 and 1, as the reader decodes them from two
  lines, coalesce to the first of them, and coalescing that result gives the empty
  sequence.
\<close>

theorem ihex_coalesce_not_idempotent:
  "ihex_ReadFile (\<lambda>fn. Inr ('':00000700F9'' @ [newline] @ '':00000100FF'' @ [newline])) ''firmware.hex'' =
     Returns ([\<lparr>ih_Address = 7, ih_RecordType = Data, ih_Data = []\<rparr>,
               \<lparr>ih_Address = 1, ih_RecordType = Data, ih_Data = []\<rparr>], None)
   \<and> ihex_CoalesceDataRecs
     [\<lparr>ih_Address = 7, ih_RecordType = Data, ih_Data = []\<rparr>,
      \<lparr>ih_Address = 1, ih_RecordType = Data, ih_Data = []\<rparr>] =
     [\<lparr>ih_Address = 7, ih_RecordType = Data, ih_Data = []\<rparr>]
   \<and> ihex_CoalesceDataRecs (ihex_CoalesceDataRecs
     [\<lparr>ih_Address = 7, ih_RecordType = Data, ih_Data = []\<rparr>,
      \<lparr>ih_Address = 1, ih_RecordType = Data, ih_Data = []\<rparr>]) = []"
  by code_simp




text \<open>
  C9 (decodeRecord never panics on a non-empty line). The ihex decoder strips the
  marker, decodes the empty rest to an empty byte slice and indexes its last element:
  the line of the marker alone panics, and ihex has no recover. The srec decoder
  returns its recovered error on the same kind of line.
\<close>

theorem ihex_decodeRecord_marker_only_panics:
  "ihex_decodeRecord '':'' = Panics \<and> srec_decodeRecord ''S'' = Inl RunTimePanic"
  by code_simp

text \<open>The ihex decoder panics on exactly the lines of one character.\<close>

lemma hexDecode_Nil_iff: "hexDecode t = Inr [] \<longleftrightarrow> t = []"
  by (cases t rule: hexDecode.cases) (auto split: option.splits sum.splits)

lemma ihex_decodeRecord_panics_iff: "ihex_decodeRecord s = Panics \<longleftrightarrow> length s = 1"
proof (cases s)
  case Nil
  then show ?thesis by (simp add: ihex_decodeRecord_def)
next
  case (Cons m t)
  have "ihex_decodeRecord (m # t) = Panics \<longleftrightarrow> hexDecode t = Inr []"
    by (auto simp: ihex_decodeRecord_def Let_def split: sum.splits list.splits)
  then show ?thesis using Cons by (simp add: hexDecode_Nil_iff)
qed



end
